theory Spec2Isabelle
  imports Complex_Main
begin

section \<open>JavaScript strings\<close>

text \<open>
  A JavaScript string is a sequence of UTF-16 code units; a code unit is modelled as a
  natural number. \<open>js\<close> turns an ASCII literal into such a sequence; the accented
  letters of the Spanish literals in the source are written as their code units
  (\<open>225\<close> a-acute, \<open>233\<close> e-acute, \<open>237\<close> i-acute, \<open>241\<close> n-tilde, \<open>243\<close> o-acute,
  \<open>250\<close> u-acute, \<open>205\<close> capital I-acute).
\<close>

type_synonym jsstring = "nat list"

definition js :: "string \<Rightarrow> jsstring" where
  "js s = map of_char s"

text \<open>The class \<open>\s\<close> of regular expressions, which is also what \<open>trim\<close> removes.\<close>

definition isSpace :: "nat \<Rightarrow> bool" where
  "isSpace c \<longleftrightarrow>
     c = 9 \<or> c = 10 \<or> c = 11 \<or> c = 12 \<or> c = 13 \<or> c = 32 \<or> c = 160 \<or> c = 5760 \<or>
     (8192 \<le> c \<and> c \<le> 8202) \<or> c = 8232 \<or> c = 8233 \<or> c = 8239 \<or> c = 8287 \<or>
     c = 12288 \<or> c = 65279"

text \<open>The class \<open>\d\<close>.\<close>

definition isDigit :: "nat \<Rightarrow> bool" where
  "isDigit c \<longleftrightarrow> 48 \<le> c \<and> c \<le> 57"

text \<open>
  \<open>toLowerCase\<close> and \<open>toUpperCase\<close> follow ECMAScript on the code units of Basic Latin
  and Latin-1 Supplement (U+0000 to U+00FF), the alphabet of the scraped Spanish text;
  code units above U+00FF are left as they are. Upper-casing may change the length:
  sharp s (223) becomes \<open>SS\<close>, and micro sign (181) and y-diaeresis (255) leave Latin-1.
\<close>

definition lowerUnit :: "nat \<Rightarrow> nat" where
  "lowerUnit c =
     (if (65 \<le> c \<and> c \<le> 90) \<or> (192 \<le> c \<and> c \<le> 214) \<or> (216 \<le> c \<and> c \<le> 222)
      then c + 32 else c)"

definition toLowerCase :: "jsstring \<Rightarrow> jsstring" where
  "toLowerCase s = map lowerUnit s"

definition upperUnits :: "nat \<Rightarrow> jsstring" where
  "upperUnits c =
     (if (97 \<le> c \<and> c \<le> 122) \<or> (224 \<le> c \<and> c \<le> 246) \<or> (248 \<le> c \<and> c \<le> 254)
      then [c - 32]
      else if c = 223 then [83, 83]
      else if c = 181 then [924]
      else if c = 255 then [376]
      else [c])"

definition toUpperCase :: "jsstring \<Rightarrow> jsstring" where
  "toUpperCase s = concat (map upperUnits s)"

text \<open>
  The strings on which the two case mappings above are those of ECMAScript: every code
  unit is at most U+00FF. Above, ECMAScript maps the cased letters as well (the capital
  I with a dot above, U+0130, lower-cases to \<open>i\<close> and a combining dot), so a statement that
  reads what a whole lower-cased string does not include is made for these strings only.
\<close>

definition latin1 :: "jsstring \<Rightarrow> bool" where
  "latin1 s = list_all (\<lambda>c. c \<le> 255) s"

fun startsWith :: "jsstring \<Rightarrow> jsstring \<Rightarrow> bool" where
  "startsWith s [] = True"
| "startsWith [] (p # ps) = False"
| "startsWith (c # cs) (p # ps) = (c = p \<and> startsWith cs ps)"

text \<open>\<open>String.prototype.includes\<close>: the pattern starts at some position of the string.\<close>

primrec includesStr :: "jsstring \<Rightarrow> jsstring \<Rightarrow> bool" where
  "includesStr [] w = (w = [])"
| "includesStr (c # cs) w = (startsWith (c # cs) w \<or> includesStr cs w)"

definition trim :: "jsstring \<Rightarrow> jsstring" where
  "trim s = rev (dropWhile isSpace (rev (dropWhile isSpace s)))"

text \<open>
  \<open>s.split(sep)\<close> for a separator of one code unit: the pieces between the separators,
  empty pieces kept; the empty string gives one empty piece.
\<close>

fun splitFrom :: "nat \<Rightarrow> jsstring \<Rightarrow> jsstring \<Rightarrow> jsstring list" where
  "splitFrom sep piece [] = [rev piece]"
| "splitFrom sep piece (c # cs) =
     (if c = sep then rev piece # splitFrom sep [] cs else splitFrom sep (c # piece) cs)"

definition splitOn :: "nat \<Rightarrow> jsstring \<Rightarrow> jsstring list" where
  "splitOn sep s = splitFrom sep [] s"

section \<open>The scraped records\<close>

record TreatmentData =
  name :: jsstring
  price :: "int option"
  currency :: "jsstring option"
  durationMinutes :: "int option"

datatype modality = in_person | online

text \<open>
  A \<open>Date\<close> holds a time value in milliseconds since the epoch, or is an Invalid Date
  (\<open>None\<close>), whose time value is \<open>NaN\<close>.
\<close>

type_synonym date = "int option"

record AvailabilityData =
  startAt :: date
  endAt :: date
  modality :: modality

record DoctorData =
  fullName :: jsstring
  specialty :: jsstring
  city :: jsstring
  address :: jsstring
  phoneCountryCode :: jsstring
  phoneNumber :: jsstring
  rating :: "real option"
  reviewCount :: int
  profileUrl :: jsstring
  treatments :: "TreatmentData list"
  availability :: "AvailabilityData list"

text \<open>The record the scraper's unit tests validate, with the name and specialty to choose.\<close>

definition testDoctor :: "jsstring \<Rightarrow> jsstring \<Rightarrow> DoctorData" where
  "testDoctor n s =
     \<lparr>fullName = n, specialty = s, city = js ''Lima'', address = js ''Av. Test'',
      phoneCountryCode = js ''+51'', phoneNumber = js ''912345678'', rating = Some 4.5,
      reviewCount = 100, profileUrl = js ''https://test.com'', treatments = [],
      availability = []\<rparr>"

section \<open>The record validator\<close>

subsection \<open>The crawl by city\<close>

definition blacklist :: "jsstring list" where
  "blacklist =
     [js ''cl'' @ [237] @ js ''nica'',
      js ''centro m'' @ [233] @ js ''dico'',
      js ''hospital'',
      js ''policl'' @ [237] @ js ''nico'',
      js ''servicios m'' @ [233] @ js ''dicos'']"

definition isValidDoctor_city :: "DoctorData \<Rightarrow> bool" where
  "isValidDoctor_city doctor =
     (let nameLower = toLowerCase (fullName doctor) in
      if list_ex (\<lambda>word. includesStr nameLower word) blacklist then False
      else if fullName doctor = toUpperCase (fullName doctor)
              \<and> includesStr (fullName doctor) (js '' '') then False
      else 2 \<le> length (splitOn 32 (trim (fullName doctor))))"

subsection \<open>The crawl by specialty and city\<close>

definition clinicKeywords :: "jsstring list" where
  "clinicKeywords =
     [js ''cl'' @ [237] @ js ''nica'', js ''clinica'', js ''centro'', js ''hospital'',
      js ''policl'' @ [237] @ js ''nico'', js ''policlinico'', js ''consultorio'',
      js ''servicios m'' @ [233] @ js ''dicos'', js ''holodoc'', js ''avansalud'',
      js ''centenario'', js ''internacional'', js ''stella maris'', js ''cerebro'',
      js ''san pablo'', js ''digestalud'']"

definition isUpperAZ :: "nat \<Rightarrow> bool" where
  "isUpperAZ c \<longleftrightarrow> 65 \<le> c \<and> c \<le> 90"

definition isLowerAZ :: "nat \<Rightarrow> bool" where
  "isLowerAZ c \<longleftrightarrow> 97 \<le> c \<and> c \<le> 122"

text \<open>The match of \<open>/^[A-Z][a-z]+ [A-Z][a-z]+/\<close>.\<close>

definition matchesPersonName :: "jsstring \<Rightarrow> bool" where
  "matchesPersonName s =
     (case s of
        [] \<Rightarrow> False
      | c # r \<Rightarrow>
          isUpperAZ c \<and> takeWhile isLowerAZ r \<noteq> [] \<and>
          (case dropWhile isLowerAZ r of
             sp # c2 # c3 # _ \<Rightarrow> sp = 32 \<and> isUpperAZ c2 \<and> isLowerAZ c3
           | _ \<Rightarrow> False))"

definition isValidDoctor_specialty :: "DoctorData \<Rightarrow> bool" where
  "isValidDoctor_specialty doctor =
     (let nameLower = toLowerCase (fullName doctor) in
      if list_ex (\<lambda>keyword. includesStr nameLower keyword) clinicKeywords then False
      else if fullName doctor = toUpperCase (fullName doctor)
              \<and> includesStr (fullName doctor) (js '' '') then False
      else if fullName doctor = specialty doctor then False
      else if matchesPersonName (fullName doctor) then True
      else True)"

subsection \<open>The rules in words\<close>

text \<open>
  A name contains a term as a case-insensitive substring: some stretch of the name
  lower-cases to the term (the terms of both lists are in lower case).
\<close>

definition containsTerm :: "jsstring \<Rightarrow> jsstring \<Rightarrow> bool" where
  "containsTerm n w \<longleftrightarrow> (\<exists>a s b. n = a @ s @ b \<and> toLowerCase s = w)"

text \<open>
  The tokens of a name split on whitespace: its maximal runs of code units that are
  not whitespace.
\<close>

function wsTokens :: "jsstring \<Rightarrow> jsstring list" where
  "wsTokens s =
     (let t = dropWhile isSpace s in
      if t = [] then []
      else takeWhile (\<lambda>c. \<not> isSpace c) t # wsTokens (dropWhile (\<lambda>c. \<not> isSpace c) t))"
  by pat_completeness auto
termination
proof (relation "measure length")
  fix s t :: jsstring
  assume t: "t = dropWhile isSpace s" and ne: "t \<noteq> []"
  from ne obtain x xs where tx: "t = x # xs" by (cases t) auto
  have "dropWhile isSpace s \<noteq> []" using t ne by simp
  then have "\<not> isSpace (hd (dropWhile isSpace s))" by (rule hd_dropWhile)
  then have "\<not> isSpace x" using t tx by (metis list.sel(1))
  then have "length (dropWhile (\<lambda>c. \<not> isSpace c) t) \<le> length xs"
    using tx length_dropWhile_le [of "\<lambda>c. \<not> isSpace c" xs] by simp
  moreover have "length t \<le> length s" using t by (simp add: length_dropWhile_le)
  ultimately show "(dropWhile (\<lambda>c. \<not> isSpace c) t, s) \<in> measure length"
    using tx by simp
qed simp

declare wsTokens.simps [simp del]

section \<open>Address normalisation\<close>

text \<open>
  Each \<open>replace\<close> of \<open>cleanAddress\<close> is one function. A global replace scans from left
  to right and resumes after each match; the quantifiers are greedy, and since a run of
  whitespace is always followed by a code unit that is not whitespace, the match at a
  position is decided by the first code unit after the run.
\<close>

text \<open>\<open>replace(/\s+/g, ' ')\<close>\<close>

function replaceSpaceRuns :: "jsstring \<Rightarrow> jsstring" where
  "replaceSpaceRuns [] = []"
| "replaceSpaceRuns (c # cs) =
     (if isSpace c then 32 # replaceSpaceRuns (dropWhile isSpace cs)
      else c # replaceSpaceRuns cs)"
  by pat_completeness auto
termination
  by (relation "measure length") (auto simp: length_dropWhile_le less_Suc_eq_le)

text \<open>\<open>replace(/\n/g, '')\<close> and \<open>replace(/\t/g, '')\<close>, for the code unit given.\<close>

definition removeUnit :: "nat \<Rightarrow> jsstring \<Rightarrow> jsstring" where
  "removeUnit u s = filter (\<lambda>c. c \<noteq> u) s"

text \<open>Whether the first code unit after the leading whitespace is a comma.\<close>

definition commaAfterSpaces :: "jsstring \<Rightarrow> bool" where
  "commaAfterSpaces s = (case dropWhile isSpace s of [] \<Rightarrow> False | d # _ \<Rightarrow> d = 44)"

text \<open>\<open>replace(/,\s*,/g, ',')\<close>\<close>

function collapseCommaPairs :: "jsstring \<Rightarrow> jsstring" where
  "collapseCommaPairs [] = []"
| "collapseCommaPairs (c # cs) =
     (if c = 44 \<and> commaAfterSpaces cs
      then 44 # collapseCommaPairs (tl (dropWhile isSpace cs))
      else c # collapseCommaPairs cs)"
  by pat_completeness auto
termination
proof (relation "measure length")
  fix c :: nat and cs :: jsstring
  have "length (tl (dropWhile isSpace cs)) \<le> length cs"
    using length_dropWhile_le [of isSpace cs] by simp
  then show "(tl (dropWhile isSpace cs), c # cs) \<in> measure length" by simp
qed simp_all

text \<open>\<open>replace(/^\s*,\s*/, '')\<close>\<close>

definition stripLeadingComma :: "jsstring \<Rightarrow> jsstring" where
  "stripLeadingComma s =
     (if commaAfterSpaces s then dropWhile isSpace (tl (dropWhile isSpace s)) else s)"

text \<open>
  \<open>replace(/\s*,\s*$/, '')\<close>: a match reaches the end of the string, so there is one
  exactly when the last code unit that is not whitespace is a comma, and the leftmost
  match starts with the whitespace before that comma.
\<close>

definition stripTrailingComma :: "jsstring \<Rightarrow> jsstring" where
  "stripTrailingComma s =
     (if commaAfterSpaces (rev s)
      then rev (dropWhile isSpace (tl (dropWhile isSpace (rev s)))) else s)"

text \<open>\<open>replace(/\s+,/g, ',')\<close>\<close>

function dropSpacesBeforeCommas :: "jsstring \<Rightarrow> jsstring" where
  "dropSpacesBeforeCommas [] = []"
| "dropSpacesBeforeCommas (c # cs) =
     (if isSpace c \<and> commaAfterSpaces cs
      then 44 # dropSpacesBeforeCommas (tl (dropWhile isSpace cs))
      else c # dropSpacesBeforeCommas cs)"
  by pat_completeness auto
termination
proof (relation "measure length")
  fix c :: nat and cs :: jsstring
  have "length (tl (dropWhile isSpace cs)) \<le> length cs"
    using length_dropWhile_le [of isSpace cs] by simp
  then show "(tl (dropWhile isSpace cs), c # cs) \<in> measure length" by simp
qed simp_all

text \<open>\<open>replace(/,\s+/g, ', ')\<close>\<close>

function oneSpaceAfterCommas :: "jsstring \<Rightarrow> jsstring" where
  "oneSpaceAfterCommas [] = []"
| "oneSpaceAfterCommas (c # cs) =
     (if c = 44 \<and> cs \<noteq> [] \<and> isSpace (hd cs)
      then 44 # 32 # oneSpaceAfterCommas (dropWhile isSpace cs)
      else c # oneSpaceAfterCommas cs)"
  by pat_completeness auto
termination
  by (relation "measure length") (auto simp: length_dropWhile_le less_Suc_eq_le)

definition cleanAddress :: "jsstring \<Rightarrow> jsstring" where
  "cleanAddress addr =
     trim (oneSpaceAfterCommas (dropSpacesBeforeCommas (stripTrailingComma
       (stripLeadingComma (collapseCommaPairs (removeUnit 9 (removeUnit 10
         (replaceSpaceRuns addr))))))))"

section \<open>Reading a normalised address\<close>

text \<open>Two neighbouring code units, the first with \<open>P\<close> and the second with \<open>Q\<close>.\<close>

fun hasAdjacent :: "(nat \<Rightarrow> bool) \<Rightarrow> (nat \<Rightarrow> bool) \<Rightarrow> jsstring \<Rightarrow> bool" where
  "hasAdjacent P Q (a # b # r) = ((P a \<and> Q b) \<or> hasAdjacent P Q (b # r))"
| "hasAdjacent P Q [a] = False"
| "hasAdjacent P Q [] = False"

definition isComma :: "nat \<Rightarrow> bool" where "isComma c \<longleftrightarrow> c = 44"

text \<open>The string without its whitespace: what is left of it for the commas to touch.\<close>

definition unspaced :: "jsstring \<Rightarrow> jsstring" where
  "unspaced s = filter (\<lambda>c. \<not> isSpace c) s"

text \<open>
  What \<open>collapseCommaPairs\<close> does to the string without its whitespace: each pair of
  commas, taken from the left, becomes one comma.
\<close>

fun collapsePairs :: "jsstring \<Rightarrow> jsstring" where
  "collapsePairs (a # b # r) =
     (if a = 44 \<and> b = 44 then 44 # collapsePairs r else a # collapsePairs (b # r))"
| "collapsePairs [a] = [a]"
| "collapsePairs [] = []"

section \<open>Numbers and randomness\<close>

text \<open>
  \<open>Math.random()\<close> is a parameter: the draws of a call are a sequence of real numbers,
  the \<open>i\<close>-th draw being \<open>rnd i\<close>, and the contract of \<open>Math.random\<close> is that each
  lies in \<open>[0, 1)\<close>. Arithmetic on numbers is exact; \<open>Math.floor\<close> is the floor and
  \<open>Math.round\<close> rounds a half upwards.
\<close>

definition unitDraws :: "(nat \<Rightarrow> real) \<Rightarrow> bool" where
  "unitDraws rnd \<longleftrightarrow> (\<forall>i. 0 \<le> rnd i \<and> rnd i < 1)"

definition mathRound :: "real \<Rightarrow> int" where
  "mathRound x = \<lfloor>x + 1 / 2\<rfloor>"

text \<open>\<open>xs[k]\<close> for a number \<open>k\<close>: \<open>undefined\<close> (\<open>None\<close>) outside the array.\<close>

definition arrayAt :: "'a list \<Rightarrow> int \<Rightarrow> 'a option" where
  "arrayAt xs k = (if 0 \<le> k \<and> k < int (length xs) then Some (xs ! nat k) else None)"

text \<open>
  The decimal digits of an integer, as a template literal writes a number that is an
  integer below \<open>10^21\<close>.
\<close>

fun digitsOf :: "nat \<Rightarrow> jsstring" where
  "digitsOf n = (if n < 10 then [48 + n] else digitsOf (n div 10) @ [48 + n mod 10])"

declare digitsOf.simps [simp del]

definition numToString :: "int \<Rightarrow> jsstring" where
  "numToString k = (if k < 0 then 45 # digitsOf (nat (- k)) else digitsOf (nat k))"

section \<open>The synthetic data generator\<close>

subsection \<open>Phone numbers\<close>

text \<open>The crawl by city: \<open>generatePhone\<close>, with the draw \<open>r\<close>.\<close>

definition generatePhone :: "real \<Rightarrow> jsstring" where
  "generatePhone r = 57 # numToString \<lfloor>r * 90000000 + 10000000\<rfloor>"

text \<open>The crawl by specialty: \<open>generatePhoneNumber\<close>.\<close>

definition generatePhoneNumber :: "real \<Rightarrow> jsstring" where
  "generatePhoneNumber r = 57 # numToString \<lfloor>r * 90000000 + 10000000\<rfloor>"

subsection \<open>Treatments\<close>

text \<open>
  The table from a key of the specialty to the names of its treatments, in the order of
  the object literal, which is the order of \<open>Object.entries\<close>.
\<close>

definition mapping_city :: "(jsstring \<times> jsstring list) list" where
  "mapping_city =
     [(js ''cardio'', [js ''Consulta cardiol'' @ [243] @ js ''gica'', js ''Electrocardiograma'',
         js ''Ecocardiograma'']),
      (js ''derma'', [js ''Consulta dermatol'' @ [243] @ js ''gica'',
         js ''Tratamiento acn'' @ [233], js ''Peeling'']),
      (js ''pediatr'', [js ''Consulta pedi'' @ [225] @ js ''trica'',
         js ''Control ni'' @ [241] @ js ''o sano'', js ''Vacunaci'' @ [243] @ js ''n'']),
      (js ''psico'', [js ''Terapia individual'', js ''Terapia pareja'',
         js ''Evaluaci'' @ [243] @ js ''n psicol'' @ [243] @ js ''gica'']),
      (js ''psiquiatr'', [js ''Consulta psiqui'' @ [225] @ js ''trica'',
         js ''Evaluaci'' @ [243] @ js ''n'', js ''Seguimiento'']),
      (js ''dent'', [js ''Limpieza dental'', js ''Blanqueamiento'', js ''Ortodoncia'']),
      (js ''nutri'', [js ''Consulta nutricional'', js ''Plan alimenticio''])]"

definition treatmentsBySpecialty :: "(jsstring \<times> jsstring list) list" where
  "treatmentsBySpecialty =
     [(js ''cardio'', [js ''Consulta cardiol'' @ [243] @ js ''gica'', js ''Electrocardiograma'',
         js ''Ecocardiograma'', js ''Holter'']),
      (js ''derma'', [js ''Consulta dermatol'' @ [243] @ js ''gica'',
         js ''Tratamiento acn'' @ [233], js ''Peeling'', js ''Criocirug'' @ [237] @ js ''a'']),
      (js ''pediatr'', [js ''Consulta pedi'' @ [225] @ js ''trica'',
         js ''Control ni'' @ [241] @ js ''o sano'', js ''Vacunaci'' @ [243] @ js ''n'']),
      (js ''psico'', [js ''Terapia individual'', js ''Terapia pareja'',
         js ''Evaluaci'' @ [243] @ js ''n psicol'' @ [243] @ js ''gica'']),
      (js ''psiquiatr'', [js ''Consulta psiqui'' @ [225] @ js ''trica'',
         js ''Evaluaci'' @ [243] @ js ''n'', js ''Seguimiento'']),
      (js ''dent'', [js ''Limpieza dental'', js ''Blanqueamiento'', js ''Ortodoncia'']),
      (js ''nutri'', [js ''Consulta nutricional'', js ''Plan alimenticio'', js ''Seguimiento''])]"

text \<open>
  The loop over the entries: the value of the first key that the lower-cased specialty
  includes, and the general consultation when there is none.
\<close>

fun firstMatch :: "jsstring \<Rightarrow> (jsstring \<times> jsstring list) list \<Rightarrow> jsstring list" where
  "firstMatch normalized [] = [js ''Consulta general'']"
| "firstMatch normalized ((key, val) # entries) =
     (if includesStr normalized key then val else firstMatch normalized entries)"

text \<open>
  The callback of \<open>names.map\<close> for the name at index \<open>i\<close>: two draws for every name, the
  price first.
\<close>

definition mockTreatment :: "(nat \<Rightarrow> real) \<Rightarrow> nat \<Rightarrow> jsstring \<Rightarrow> TreatmentData" where
  "mockTreatment rnd i n =
     \<lparr>name = n,
      price = Some (mathRound (rnd (2 * i) * 200 + 50)),
      currency = Some (js ''PEN''),
      durationMinutes = arrayAt [30, 45, 60] \<lfloor>rnd (2 * i + 1) * 3\<rfloor>\<rparr>"

definition generateMockTreatments_city :: "(nat \<Rightarrow> real) \<Rightarrow> jsstring \<Rightarrow> TreatmentData list" where
  "generateMockTreatments_city rnd specialty' =
     (let normalized = toLowerCase specialty';
          names = firstMatch normalized mapping_city
      in map (\<lambda>(i, n). mockTreatment rnd i n) (enumerate 0 names))"

definition generateMockTreatments_specialty ::
    "(nat \<Rightarrow> real) \<Rightarrow> jsstring \<Rightarrow> TreatmentData list" where
  "generateMockTreatments_specialty rnd specialty' =
     (let normalized = toLowerCase specialty';
          treatments = firstMatch normalized treatmentsBySpecialty
      in map (\<lambda>(i, n). mockTreatment rnd i n) (enumerate 0 treatments))"

section \<open>Dates\<close>

text \<open>
  The time value of a valid \<open>Date\<close> is at most \<open>8.64e15\<close> milliseconds from the epoch;
  \<open>new Date(t)\<close> and the setters clip a time value outside that range to an Invalid
  Date. Local time is UTC plus a fixed offset \<open>tz\<close> in milliseconds (a zone without
  daylight saving, as Peru's), a parameter.
\<close>

definition maxTime :: int where
  "maxTime = 8640000000000000"

definition msPerDay :: int where
  "msPerDay = 86400000"

definition msPerHour :: int where
  "msPerHour = 3600000"

definition timeClip :: "int \<Rightarrow> date" where
  "timeClip t = (if \<bar>t\<bar> \<le> maxTime then Some t else None)"

text \<open>\<open>a > b\<close> on two dates: false when either is invalid.\<close>

definition dateGreater :: "date \<Rightarrow> date \<Rightarrow> bool" where
  "dateGreater a b = (case (a, b) of (Some x, Some y) \<Rightarrow> y < x | _ \<Rightarrow> False)"

text \<open>\<open>getDay\<close>: 0 is Sunday; the epoch was a Thursday. \<open>None\<close> is \<open>NaN\<close>.\<close>

definition getDay :: "int \<Rightarrow> date \<Rightarrow> int option" where
  "getDay tz d = (case d of None \<Rightarrow> None | Some t \<Rightarrow> Some (((t + tz) div msPerDay + 4) mod 7))"

definition getHours :: "int \<Rightarrow> date \<Rightarrow> int option" where
  "getHours tz d = (case d of None \<Rightarrow> None | Some t \<Rightarrow> Some (((t + tz) mod msPerDay) div msPerHour))"

text \<open>
  \<open>d.setDate(d.getDate() + k)\<close>: the same local time of day, \<open>k\<close> days later.
\<close>

definition addDays :: "date \<Rightarrow> int \<Rightarrow> date" where
  "addDays d k = (case d of None \<Rightarrow> None | Some t \<Rightarrow> timeClip (t + k * msPerDay))"

text \<open>\<open>d.setHours(h, 0, 0, 0)\<close>: the hour \<open>h\<close> sharp of the same local day.\<close>

definition setHoursSharp :: "int \<Rightarrow> date \<Rightarrow> int \<Rightarrow> date" where
  "setHoursSharp tz d h =
     (case d of None \<Rightarrow> None
      | Some t \<Rightarrow> timeClip (((t + tz) div msPerDay) * msPerDay + h * msPerHour - tz))"

text \<open>
  \<open>d.setHours(h)\<close>: the hour \<open>h\<close> of the same local day, minutes, seconds and
  milliseconds kept; invalid when \<open>h\<close> is \<open>NaN\<close>.
\<close>

definition setHours :: "int \<Rightarrow> date \<Rightarrow> int option \<Rightarrow> date" where
  "setHours tz d h =
     (case (d, h) of
        (Some t, Some k) \<Rightarrow>
          timeClip (((t + tz) div msPerDay) * msPerDay + k * msPerHour
                      + (t + tz) mod msPerHour - tz)
      | _ \<Rightarrow> None)"

section \<open>Availability\<close>

subsection \<open>Synthesized availability\<close>

text \<open>
  The body of the loop of \<open>generateMockAvailability\<close> for one \<open>day\<close>: nothing on a
  Saturday or Sunday, else the morning and the afternoon block. \<open>today\<close> is the value of
  \<open>new Date()\<close>.
\<close>

definition mockDay :: "int \<Rightarrow> date \<Rightarrow> bool \<Rightarrow> int \<Rightarrow> AvailabilityData list" where
  "mockDay tz today isOnline day =
     (let date' = addDays today day in
      if getDay tz date' = Some 0 \<or> getDay tz date' = Some 6 then []
      else
        let morning = setHoursSharp tz date' 9;
            morningEnd = setHoursSharp tz date' 13;
            afternoon = setHoursSharp tz date' 15;
            afternoonEnd = setHoursSharp tz date' 19;
            modality' = (if isOnline then online else in_person)
        in [\<lparr>startAt = morning, endAt = morningEnd, modality = modality'\<rparr>,
            \<lparr>startAt = afternoon, endAt = afternoonEnd, modality = modality'\<rparr>])"

definition generateMockAvailability :: "int \<Rightarrow> date \<Rightarrow> bool \<Rightarrow> AvailabilityData list" where
  "generateMockAvailability tz today isOnline =
     concat (map (mockDay tz today isOnline) [1 .. 14])"

text \<open>
  The crawl by specialty has its own \<open>generateMockAvailability\<close>, without the
  parameter: the same two blocks a day, always in person.
\<close>

definition generateMockAvailability_specialty :: "int \<Rightarrow> date \<Rightarrow> AvailabilityData list" where
  "generateMockAvailability_specialty tz today =
     concat (map (mockDay tz today False) [1 .. 14])"

subsection \<open>Availability from the slot endpoint\<close>

text \<open>
  A slot of the endpoint's answer, as \<open>fetchAvailability\<close> reads it: whether \<open>booked\<close> is
  truthy, the \<open>booking_url\<close> if there is one, and the date \<open>new Date(slot.start)\<close>, invalid
  when the start is missing or does not parse.
\<close>

record slot =
  booked :: bool
  booking_url :: "jsstring option"
  start :: date

datatype js_error = Error jsstring | HttpError nat

text \<open>
  The answer of the endpoint is an error of the request, or the items; an item that is
  \<open>null\<close> (\<open>None\<close>) makes the loop throw, and the \<open>catch\<close> returns the empty list for
  all of them.
\<close>

definition acceptedSlot :: "slot \<Rightarrow> bool" where
  "acceptedSlot s \<longleftrightarrow> \<not> booked s \<and> (case booking_url s of None \<Rightarrow> False | Some u \<Rightarrow> u \<noteq> [])"

definition slotAvailability :: "int \<Rightarrow> slot \<Rightarrow> AvailabilityData" where
  "slotAvailability tz s =
     (let startAt' = start s;
          endAt' = setHours tz startAt' (map_option (\<lambda>h. h + 1) (getHours tz startAt'))
      in \<lparr>startAt = startAt', endAt = endAt', modality = in_person\<rparr>)"

definition fetchAvailability :: "int \<Rightarrow> js_error + slot option list \<Rightarrow> AvailabilityData list" where
  "fetchAvailability tz response =
     (case response of
        Inl e \<Rightarrow> []
      | Inr items \<Rightarrow>
          if None \<in> set items then []
          else map (slotAvailability tz) (filter acceptedSlot (map the items)))"

section \<open>The appointment generator\<close>















subsection \<open>An appointment inside a block\<close>



section \<open>The address extractor\<close>

text \<open>
  A profile page, as the scraper's selectors see it: for every query of the extractors
  the texts it reads, in document order.
\<close>

record profileDoc =
  addressBlocks :: "jsstring list"
    \<comment> \<open>for each \<open>[itemprop="address"]\<close>, the text of its first \<open>span.text-truncate\<close>\<close>
  streetAddress :: "jsstring option"
    \<comment> \<open>when \<open>[data-__test__-id="street-address"]\<close> exists, the text of the first
        \<open>span.text-truncate\<close> under its parent\<close>
  metaStreet :: "jsstring option"
    \<comment> \<open>the \<open>content\<close> of \<open>meta[itemprop="streetAddress"]\<close>\<close>
  containerSpans :: "jsstring list list"
    \<comment> \<open>for each \<open>div.overflow-hidden, div.d-flex\<close>, the texts of its spans\<close>
  paragraphSpans :: "jsstring list"
    \<comment> \<open>for each \<open>p.m-0\<close>, the text of its first \<open>span.text-truncate\<close>\<close>
  phoneMeta :: "jsstring option"
    \<comment> \<open>the \<open>content\<close> of \<open>meta[itemprop="telephone"]\<close>\<close>
  bodyText :: jsstring
    \<comment> \<open>the text of \<open>body\<close>\<close>
  serviceItems :: "(jsstring \<times> jsstring) list"
    \<comment> \<open>for each \<open>li[data-id="service-item"]\<close>, the text of its
        \<open>h3[itemprop="availableService"]\<close> and the text of its \<open>.mr-1\<close>\<close>
  serviceHeadings :: "(jsstring \<times> jsstring) list"
    \<comment> \<open>for each \<open>h3.h5.font-weight-bold\<close>, its text and the text of the \<open>.mr-1\<close>
        under its parent\<close>

text \<open>
  \<open>text.split(/\s+\d{5}$/)[0]\<close>: the text without a postal code of five digits at its
  end and the whitespace before it.
\<close>

definition stripPostal :: "jsstring \<Rightarrow> jsstring" where
  "stripPostal s =
     (let r = rev s in
      if 6 \<le> length r \<and> list_all isDigit (take 5 r) \<and> isSpace (r ! 5)
      then rev (dropWhile isSpace (drop 5 r)) else s)"

text \<open>
  A regular expression with the flag \<open>i\<close> takes the letters of Basic Latin in either
  case.
\<close>

definition asciiLower :: "nat \<Rightarrow> nat" where
  "asciiLower c = (if 65 \<le> c \<and> c \<le> 90 then c + 32 else c)"

text \<open>The match of \<open>/^(Dr\.|Dra\.|Ps\s)/i\<close>.\<close>

definition isTitled :: "jsstring \<Rightarrow> bool" where
  "isTitled s =
     (let l = map asciiLower s in
      startsWith l (js ''dr.'') \<or> startsWith l (js ''dra.'') \<or>
      (startsWith l (js ''ps'') \<and> (case drop 2 s of [] \<Rightarrow> False | c # _ \<Rightarrow> isSpace c)))"

definition hasDigit :: "jsstring \<Rightarrow> bool" where
  "hasDigit s = list_ex isDigit s"

definition numColegiado :: jsstring where
  "numColegiado = js ''N'' @ [250] @ js ''m. Colegiado''"

text \<open>Method 1: the callback of the loop over the address blocks, \<open>return false\<close> ending it.\<close>

fun addressFromBlocks :: "jsstring list \<Rightarrow> jsstring" where
  "addressFromBlocks [] = []"
| "addressFromBlocks (t # ts) =
     (let streetSpan = trim t in
      if streetSpan \<noteq> [] \<and> 10 < length streetSpan
      then
        let cleaned = cleanAddress (stripPostal streetSpan) in
        if cleaned \<noteq> [] \<and> \<not> includesStr cleaned numColegiado then cleaned
        else addressFromBlocks ts
      else addressFromBlocks ts)"

text \<open>
  Method 4: the inner loop over the spans of one container, with the value of \<open>addr\<close>
  before it, and the outer loop over the containers, which ends once \<open>addr\<close> is not
  empty.
\<close>

definition looksLikeStreet :: "jsstring \<Rightarrow> bool" where
  "looksLikeStreet text =
     (let l = toLowerCase text in
      15 < length text \<and> hasDigit text \<and>
      (includesStr l (js ''calle'') \<or> includesStr l (js ''av.'') \<or>
       includesStr l (js ''avenida'') \<or> includesStr l (js ''jr'') \<or>
       includesStr l (js ''urb'') \<or> includesStr l (js ''psicoterapia online'')))"

definition looksLikeOrganization :: "jsstring \<Rightarrow> bool" where
  "looksLikeOrganization text =
     (isTitled text \<or> includesStr text (js ''Cl'' @ [237] @ js ''nica'') \<or>
      includesStr text (js ''Centro'') \<or> includesStr text (js ''Hospital''))"

fun addressFromSpans :: "jsstring \<Rightarrow> jsstring list \<Rightarrow> jsstring" where
  "addressFromSpans addr [] = addr"
| "addressFromSpans addr (sp # sps) =
     (let text = trim sp in
      if looksLikeStreet text \<and> \<not> looksLikeOrganization text
      then cleanAddress (stripPostal text)
      else addressFromSpans addr sps)"

fun addressFromContainers :: "jsstring \<Rightarrow> jsstring list list \<Rightarrow> jsstring" where
  "addressFromContainers addr [] = addr"
| "addressFromContainers addr (spans # containers) =
     (let addr' = addressFromSpans addr spans in
      if addr' \<noteq> [] then addr' else addressFromContainers addr' containers)"

text \<open>Method 5: the loop over the paragraphs.\<close>

definition hasAddressKeywords :: "jsstring \<Rightarrow> bool" where
  "hasAddressKeywords text =
     (let l = toLowerCase text in
      includesStr l (js ''calle'') \<or> includesStr l (js ''av.'') \<or>
      includesStr l (js ''urb.'') \<or> includesStr l (js ''jr'') \<or>
      includesStr l (js ''psicoterapia online''))"

fun addressFromParagraphs :: "jsstring list \<Rightarrow> jsstring" where
  "addressFromParagraphs [] = []"
| "addressFromParagraphs (p # ps) =
     (let text = trim p in
      if text \<noteq> [] \<and> 15 < length text \<and> hasDigit text
           \<and> hasAddressKeywords text \<and> \<not> isTitled text
      then cleanAddress (stripPostal text)
      else addressFromParagraphs ps)"

text \<open>
  \<open>extractAddress\<close>: the five methods in their order; \<open>None\<close> is \<open>null\<close>. No operation
  of the body throws on a parsed page, and the \<open>catch\<close> around it returns \<open>null\<close> too.
\<close>

definition extractAddress :: "profileDoc \<Rightarrow> jsstring option" where
  "extractAddress doc =
     (let addr = addressFromBlocks (addressBlocks doc) in
      if addr \<noteq> [] then Some addr
      else
        let text2 = (case streetAddress doc of None \<Rightarrow> [] | Some t \<Rightarrow> trim t) in
        if streetAddress doc \<noteq> None \<and> text2 \<noteq> [] \<and> 10 < length text2
        then Some (cleanAddress (stripPostal text2))
        else if (case metaStreet doc of None \<Rightarrow> False | Some m \<Rightarrow> m \<noteq> [] \<and> 5 < length m)
        then map_option cleanAddress (metaStreet doc)
        else
          let addr4 = addressFromContainers [] (containerSpans doc) in
          if addr4 \<noteq> [] then Some addr4
          else
            let addr5 = addressFromParagraphs (paragraphSpans doc) in
            if addr5 \<noteq> [] then Some addr5 else None)"

section \<open>The crawl by city\<close>

record DoctorSearchResult =
  result_doctorId :: jsstring
  result_doctorName :: jsstring
  result_doctorUrl :: jsstring
  result_addressId :: jsstring
  result_specialty :: jsstring
  result_city :: jsstring
  result_rating :: "real option"
  result_reviewCount :: int

text \<open>
  What the scraper gets from outside, as parameters. Every call to the outside (a
  request, a draw, a reading of the clock) has a position in the run, counted from the
  start, and its answer may depend on the position and on the request: a request either
  fails or gives what the scraper's parser reads from the answer.
\<close>

record world =
  random :: "nat \<Rightarrow> real"
  clock :: "nat \<Rightarrow> int"
  tzOffset :: int
  searchPage :: "nat \<Rightarrow> jsstring \<Rightarrow> nat \<Rightarrow> js_error + DoctorSearchResult list"
    \<comment> \<open>the search results parsed from the given page of a city\<close>
  profilePage :: "nat \<Rightarrow> jsstring \<Rightarrow> js_error + profileDoc"
    \<comment> \<open>the profile page at a URL\<close>
  slotsEndpoint :: "nat \<Rightarrow> jsstring \<Rightarrow> jsstring \<Rightarrow> js_error + slot option list"
    \<comment> \<open>the slots of a doctor at an address\<close>

record config =
  cities :: "jsstring list"
  maxDoctorsPerCity :: "int option"  \<comment> \<open>\<open>parseInt\<close> of the setting, \<open>None\<close> for \<open>NaN\<close>\<close>
  useRealAvailability :: bool

definition maxPages :: nat where
  "maxPages = 3"

text \<open>
  \<open>replace(/^(Dr\.|Dra\.|Ps\.?|Odont\.|Lic\.|Mg\.)\s*/gi, '')\<close>: the first alternative
  that matches at the start is removed with the whitespace after it.
\<close>

definition stripTitle :: "jsstring \<Rightarrow> jsstring" where
  "stripTitle s =
     (let l = map asciiLower s in
      if startsWith l (js ''dr.'') then dropWhile isSpace (drop 3 s)
      else if startsWith l (js ''dra.'') then dropWhile isSpace (drop 4 s)
      else if startsWith l (js ''ps.'') then dropWhile isSpace (drop 3 s)
      else if startsWith l (js ''ps'') then dropWhile isSpace (drop 2 s)
      else if startsWith l (js ''odont.'') then dropWhile isSpace (drop 6 s)
      else if startsWith l (js ''lic.'') then dropWhile isSpace (drop 4 s)
      else if startsWith l (js ''mg.'') then dropWhile isSpace (drop 3 s)
      else s)"

subsection \<open>The phone extractor\<close>

text \<open>\<open>replace(/\+51\s*/, '')\<close>: the first \<open>+51\<close> goes, with the whitespace after it.\<close>

fun removeCountryCode :: "jsstring \<Rightarrow> jsstring" where
  "removeCountryCode [] = []"
| "removeCountryCode (c # cs) =
     (if startsWith (c # cs) (js ''+51'') then dropWhile isSpace (drop 3 (c # cs))
      else c # removeCountryCode cs)"

text \<open>\<open>replace('+51', '')\<close>: the first \<open>+51\<close> goes.\<close>

fun removePlus51 :: "jsstring \<Rightarrow> jsstring" where
  "removePlus51 [] = []"
| "removePlus51 (c # cs) =
     (if startsWith (c # cs) (js ''+51'') then drop 3 (c # cs) else c # removePlus51 cs)"

text \<open>The match of \<open>9\d{8}\<close> at the start of a string.\<close>

definition nineDigits :: "jsstring \<Rightarrow> bool" where
  "nineDigits s =
     (case s of [] \<Rightarrow> False
      | c # r \<Rightarrow> c = 57 \<and> 8 \<le> length r \<and> list_all isDigit (take 8 r))"

text \<open>
  The match of \<open>/(\+51\s?)?9\d{8}/\<close> that starts at the start of a string, if there is
  one: with the code and a whitespace, with the code alone, or without the code.
\<close>

definition phoneAt :: "jsstring \<Rightarrow> jsstring option" where
  "phoneAt s =
     (if startsWith s (js ''+51'')
      then
        let r = drop 3 s in
        if r \<noteq> [] \<and> isSpace (hd r) \<and> nineDigits (tl r) then Some (take 13 s)
        else if nineDigits r then Some (take 12 s)
        else None
      else if nineDigits s then Some (take 9 s)
      else None)"

text \<open>\<open>text.match(/(\+51\s?)?9\d{8}/)\<close>: the leftmost match.\<close>

fun findPhone :: "jsstring \<Rightarrow> jsstring option" where
  "findPhone [] = None"
| "findPhone (c # cs) =
     (case phoneAt (c # cs) of Some m \<Rightarrow> Some m | None \<Rightarrow> findPhone cs)"

text \<open>
  \<open>extractPhone\<close>: the telephone of the page's metadata, else the first number in the
  text of the page, else a synthesized number, which takes a draw.
\<close>

definition extractPhone :: "world \<Rightarrow> nat \<Rightarrow> profileDoc \<Rightarrow> jsstring \<times> nat" where
  "extractPhone w n doc =
     (if (case phoneMeta doc of None \<Rightarrow> False | Some m \<Rightarrow> m \<noteq> [])
      then (unspaced (removeCountryCode (the (phoneMeta doc))), n)
      else
        case findPhone (bodyText doc) of
          Some m \<Rightarrow> (removePlus51 (unspaced m), n)
        | None \<Rightarrow> (generatePhone (random w n), n + 1))"

subsection \<open>The treatment extractor\<close>

text \<open>
  \<open>priceText.match(/S\/\s*(\d+)/)\<close>: the digits of the leftmost \<open>S/\<close> that has a digit
  after it, whitespace aside.
\<close>

fun findPrice :: "jsstring \<Rightarrow> jsstring option" where
  "findPrice [] = None"
| "findPrice (c # cs) =
     (if startsWith (c # cs) (js ''S/'')
         \<and> (case dropWhile isSpace (drop 2 (c # cs)) of [] \<Rightarrow> False | d # _ \<Rightarrow> isDigit d)
      then Some (takeWhile isDigit (dropWhile isSpace (drop 2 (c # cs))))
      else findPrice cs)"

text \<open>\<open>parseInt\<close> of a string of digits (exact below \<open>2^53\<close>).\<close>

definition parseDigits :: "jsstring \<Rightarrow> int" where
  "parseDigits ds = foldl (\<lambda>a d. 10 * a + (int d - 48)) 0 ds"

text \<open>
  The callback of the loop over the items, with the lower-cased names \<open>seen\<close> so far:
  an item without a name or with a name seen before is passed over.
\<close>

fun collectTreatments :: "jsstring list \<Rightarrow> (jsstring \<times> jsstring) list \<Rightarrow> TreatmentData list" where
  "collectTreatments seen [] = []"
| "collectTreatments seen ((nameText, priceText) # items) =
     (let name' = trim nameText in
      if name' = [] then collectTreatments seen items
      else
        let nameLower = toLowerCase name' in
        if nameLower \<in> set seen then collectTreatments seen items
        else
          let priceMatch = findPrice (trim priceText) in
          \<lparr>name = name',
           price = map_option parseDigits priceMatch,
           currency = (if priceMatch \<noteq> None then Some (js ''PEN'') else None),
           durationMinutes = Some 30\<rparr>
          # collectTreatments (nameLower # seen) items)"

text \<open>
  \<open>extractTreatments\<close>: the service items, and the headings when the items give none
  (no name has been seen then).
\<close>

definition extractTreatments :: "profileDoc \<Rightarrow> TreatmentData list" where
  "extractTreatments doc =
     (let treatments' = collectTreatments [] (serviceItems doc) in
      if treatments' = [] then collectTreatments [] (serviceHeadings doc) else treatments')"

subsection \<open>The profile\<close>

text \<open>
  The body of \<open>scrapeDoctorProfile\<close> after the page has arrived. The result comes with
  the position after its calls to the outside.
\<close>

definition profileRecord ::
    "world \<Rightarrow> config \<Rightarrow> nat \<Rightarrow> DoctorSearchResult \<Rightarrow> profileDoc \<Rightarrow> DoctorData \<times> nat" where
  "profileRecord w cfg n result doc =
     (let fullName' = trim (stripTitle (result_doctorName result));
          address' = (case extractAddress doc of
                        None \<Rightarrow> js ''Consultorio en '' @ result_city result
                      | Some a \<Rightarrow> if a = [] then js ''Consultorio en '' @ result_city result else a);
          (phoneNumber', n1) = extractPhone w n doc;
          treatments' = extractTreatments doc;
          (finalTreatments, n2) =
            (if treatments' \<noteq> [] then (treatments', n1)
             else (generateMockTreatments_city (\<lambda>i. random w (n1 + i)) (result_specialty result),
                   n1 + 2 * length (firstMatch (toLowerCase (result_specialty result)) mapping_city)));
          isOnline = includesStr (toLowerCase address') (js ''online'');
          (availability', n3) =
            (if useRealAvailability cfg \<and> result_addressId result \<noteq> []
             then
               let fetched = fetchAvailability (tzOffset w)
                     (slotsEndpoint w n2 (result_doctorId result) (result_addressId result))
               in if fetched = []
                  then (generateMockAvailability (tzOffset w) (timeClip (clock w (n2 + 1))) isOnline,
                        n2 + 2)
                  else (fetched, n2 + 1)
             else (generateMockAvailability (tzOffset w) (timeClip (clock w n2)) isOnline, n2 + 1))
      in (\<lparr>fullName = fullName', specialty = result_specialty result, city = result_city result,
           address = address', phoneCountryCode = js ''+51'', phoneNumber = phoneNumber',
           rating = result_rating result, reviewCount = result_reviewCount result,
           profileUrl = result_doctorUrl result, treatments = finalTreatments,
           availability = availability'\<rparr>, n3))"

text \<open>\<open>scrapeDoctorProfile\<close>: a request that fails is caught and gives \<open>null\<close>.\<close>

definition scrapeDoctorProfile ::
    "world \<Rightarrow> config \<Rightarrow> nat \<Rightarrow> DoctorSearchResult \<Rightarrow> DoctorData option \<times> nat" where
  "scrapeDoctorProfile w cfg n result =
     (case profilePage w n (result_doctorUrl result) of
        Inl e \<Rightarrow> (None, n + 1)
      | Inr doc \<Rightarrow>
          (let (doctor, n1) = profileRecord w cfg (n + 1) result doc in (Some doctor, n1)))"

text \<open>
  The first loop of \<open>scrapeDoctorsByCity\<close>, over the pages that are left: a page that
  fails is skipped, an empty page ends the loop. The names of the cities come from an
  environment variable and are well-formed text, for which building the URL of the
  request does not throw.
\<close>

fun collectPages ::
    "world \<Rightarrow> jsstring \<Rightarrow> nat list \<Rightarrow> nat \<Rightarrow> DoctorSearchResult list \<times> nat" where
  "collectPages w city' [] n = ([], n)"
| "collectPages w city' (page # pages) n =
     (case searchPage w n city' page of
        Inl e \<Rightarrow> collectPages w city' pages (n + 1)
      | Inr pageResults \<Rightarrow>
          if pageResults = [] then ([], n + 1)
          else
            let (rest, n1) = collectPages w city' pages (n + 1)
            in (pageResults @ rest, n1))"

text \<open>
  The second loop, over the search results that are left, with the number of doctors
  \<open>processed\<close> so far, the set \<open>scrapedUrls\<close> and the position; it gives the doctors
  pushed, the set and the position after it.
\<close>

definition capReached :: "int option \<Rightarrow> nat \<Rightarrow> bool" where
  "capReached cap processed = (case cap of None \<Rightarrow> False | Some m \<Rightarrow> m \<le> int processed)"

fun processResults ::
    "world \<Rightarrow> config \<Rightarrow> DoctorSearchResult list \<Rightarrow> nat \<Rightarrow> jsstring set \<Rightarrow> nat
      \<Rightarrow> DoctorData list \<times> jsstring set \<times> nat" where
  "processResults w cfg [] processed scrapedUrls n = ([], scrapedUrls, n)"
| "processResults w cfg (result # results) processed scrapedUrls n =
     (if capReached (maxDoctorsPerCity cfg) processed then ([], scrapedUrls, n)
      else if result_doctorUrl result \<in> scrapedUrls
      then processResults w cfg results processed scrapedUrls n
      else
        case scrapeDoctorProfile w cfg n result of
          (Some doctor, n1) \<Rightarrow>
            if isValidDoctor_city doctor
            then
              let (rest, urls, n2) =
                    processResults w cfg results (Suc processed)
                      (insert (result_doctorUrl result) scrapedUrls) n1
              in (doctor # rest, urls, n2)
            else processResults w cfg results processed scrapedUrls n1
        | (None, n1) \<Rightarrow> processResults w cfg results processed scrapedUrls n1)"

definition scrapeDoctorsByCity ::
    "world \<Rightarrow> config \<Rightarrow> jsstring \<Rightarrow> jsstring set \<Rightarrow> nat
      \<Rightarrow> DoctorData list \<times> jsstring set \<times> nat" where
  "scrapeDoctorsByCity w cfg city' scrapedUrls n =
     (let (searchResults, n1) = collectPages w city' [1 ..< Suc maxPages] n
      in processResults w cfg searchResults 0 scrapedUrls n1)"

text \<open>The loop of \<open>scrapeDoctors\<close> over the cities that are left.\<close>

fun scrapeCities ::
    "world \<Rightarrow> config \<Rightarrow> jsstring list \<Rightarrow> jsstring set \<Rightarrow> nat
      \<Rightarrow> DoctorData list \<times> jsstring set \<times> nat" where
  "scrapeCities w cfg [] scrapedUrls n = ([], scrapedUrls, n)"
| "scrapeCities w cfg (c # cs) scrapedUrls n =
     (let (cityDoctors, urls1, n1) = scrapeDoctorsByCity w cfg (trim c) scrapedUrls n;
          (rest, urls2, n2) = scrapeCities w cfg cs urls1 n1
      in (cityDoctors @ rest, urls2, n2))"

text \<open>
  \<open>scrapeDoctors\<close>: it throws when no doctor was found (\<open>Inl\<close>), and the \<open>catch\<close> throws
  the error on; otherwise it returns the doctors. \<open>saveJsonFiles\<close> catches its own
  failures and changes nothing of the result.
\<close>

definition scrapeDoctors_city ::
    "world \<Rightarrow> config \<Rightarrow> jsstring set \<Rightarrow> nat
      \<Rightarrow> (js_error + DoctorData list) \<times> jsstring set \<times> nat" where
  "scrapeDoctors_city w cfg scrapedUrls n =
     (let (allDoctors, urls, n1) = scrapeCities w cfg (cities cfg) scrapedUrls n
      in if allDoctors = [] then (Inl (Error (js ''No doctors found'')), urls, n1)
         else (Inr allDoctors, urls, n1))"

section \<open>The crawl by specialty and city\<close>

text \<open>
  A listing page, as the scraper reads it: for each card of the first selector, and for
  each link of the alternative one, what \<open>parseDoctorCard\<close> returns for it, \<open>None\<close> when
  it returns \<open>null\<close>.
\<close>

record listing =
  doctorCards :: "DoctorData option list"
  alternativeCards :: "DoctorData option list"

record world_specialty =
  listingPage :: "nat \<Rightarrow> jsstring \<Rightarrow> jsstring \<Rightarrow> js_error + listing"
    \<comment> \<open>the page of a specialty in a city\<close>
  homePage :: "nat \<Rightarrow> js_error + DoctorData option list"
    \<comment> \<open>the cards of the home page\<close>

record config_specialty =
  specialties :: "jsstring list"
  cities_specialty :: "jsstring list"
  maxDoctorsPerSpecialty :: "int option"

definition belowCap :: "int option \<Rightarrow> nat \<Rightarrow> bool" where
  "belowCap cap parsed = (case cap of None \<Rightarrow> False | Some m \<Rightarrow> int parsed < m)"

text \<open>
  \<open>parseStandardCards\<close> over the cards that are left, with the number \<open>parsed\<close> so far:
  the doctors pushed and the set \<open>scrapedUrls\<close> after it.
\<close>

fun parseStandardCards ::
    "config_specialty \<Rightarrow> DoctorData option list \<Rightarrow> nat \<Rightarrow> jsstring set
      \<Rightarrow> DoctorData list \<times> jsstring set" where
  "parseStandardCards cfg [] parsed scrapedUrls = ([], scrapedUrls)"
| "parseStandardCards cfg (card' # cards) parsed scrapedUrls =
     (if \<not> belowCap (maxDoctorsPerSpecialty cfg) parsed then ([], scrapedUrls)
      else
        case card' of
          None \<Rightarrow> parseStandardCards cfg cards parsed scrapedUrls
        | Some doctor \<Rightarrow>
            if profileUrl doctor \<notin> scrapedUrls \<and> isValidDoctor_specialty doctor
            then
              let (rest, urls) =
                    parseStandardCards cfg cards (Suc parsed)
                      (insert (profileUrl doctor) scrapedUrls)
              in (doctor # rest, urls)
            else parseStandardCards cfg cards parsed scrapedUrls)"

definition scrapeDoctorsFromHomepage ::
    "world_specialty \<Rightarrow> config_specialty \<Rightarrow> jsstring set \<Rightarrow> nat
      \<Rightarrow> DoctorData list \<times> jsstring set \<times> nat" where
  "scrapeDoctorsFromHomepage w cfg scrapedUrls n =
     (case homePage w n of
        Inl e \<Rightarrow> ([], scrapedUrls, n + 1)
      | Inr cards \<Rightarrow>
          (let (doctors, urls) = parseStandardCards cfg cards 0 scrapedUrls
           in (doctors, urls, n + 1)))"

definition scrapeDoctorsBySpecialtyAndCity ::
    "world_specialty \<Rightarrow> config_specialty \<Rightarrow> jsstring \<Rightarrow> jsstring \<Rightarrow> jsstring set \<Rightarrow> nat
      \<Rightarrow> DoctorData list \<times> jsstring set \<times> nat" where
  "scrapeDoctorsBySpecialtyAndCity w cfg specialty' city' scrapedUrls n =
     (case listingPage w n specialty' city' of
        Inl e \<Rightarrow>
          if e = HttpError 404 then scrapeDoctorsFromHomepage w cfg scrapedUrls (n + 1)
          else ([], scrapedUrls, n + 1)
      | Inr page \<Rightarrow>
          if doctorCards page \<noteq> []
          then
            let (doctors, urls) = parseStandardCards cfg (doctorCards page) 0 scrapedUrls
            in (doctors, urls, n + 1)
          else if alternativeCards page \<noteq> []
          then
            let (doctors, urls) = parseStandardCards cfg (alternativeCards page) 0 scrapedUrls
            in (doctors, urls, n + 1)
          else ([], scrapedUrls, n + 1))"

text \<open>The two loops of \<open>scrapeDoctors\<close>: the cities that are left of one specialty, and the specialties.\<close>

fun scrapeCitiesOf ::
    "world_specialty \<Rightarrow> config_specialty \<Rightarrow> jsstring \<Rightarrow> jsstring list \<Rightarrow> jsstring set \<Rightarrow> nat
      \<Rightarrow> DoctorData list \<times> jsstring set \<times> nat" where
  "scrapeCitiesOf w cfg specialty' [] scrapedUrls n = ([], scrapedUrls, n)"
| "scrapeCitiesOf w cfg specialty' (c # cs) scrapedUrls n =
     (let (cityDoctors, urls1, n1) =
            scrapeDoctorsBySpecialtyAndCity w cfg (trim specialty') (trim c) scrapedUrls n;
          (rest, urls2, n2) = scrapeCitiesOf w cfg specialty' cs urls1 n1
      in (cityDoctors @ rest, urls2, n2))"

fun scrapeSpecialties ::
    "world_specialty \<Rightarrow> config_specialty \<Rightarrow> jsstring list \<Rightarrow> jsstring set \<Rightarrow> nat
      \<Rightarrow> DoctorData list \<times> jsstring set \<times> nat" where
  "scrapeSpecialties w cfg [] scrapedUrls n = ([], scrapedUrls, n)"
| "scrapeSpecialties w cfg (s # ss) scrapedUrls n =
     (let (doctors1, urls1, n1) = scrapeCitiesOf w cfg s (cities_specialty cfg) scrapedUrls n;
          (rest, urls2, n2) = scrapeSpecialties w cfg ss urls1 n1
      in (doctors1 @ rest, urls2, n2))"

definition scrapeDoctors_specialty ::
    "world_specialty \<Rightarrow> config_specialty \<Rightarrow> jsstring set \<Rightarrow> nat
      \<Rightarrow> (js_error + DoctorData list) \<times> jsstring set \<times> nat" where
  "scrapeDoctors_specialty w cfg scrapedUrls n =
     (let (doctors, urls, n1) = scrapeSpecialties w cfg (specialties cfg) scrapedUrls n
      in if doctors = []
         then (Inl (Error (js ''No doctors could be scraped from Doctoralia'')), urls, n1)
         else (Inr doctors, urls, n1))"

section \<open>A run to try the crawls on\<close>

text \<open>
  A small outside for the crawl by city. The first search page of a city fails; the
  second lists one doctor twice and then another; the third is empty. The profile page
  of the first doctor has nothing the extractors look for but a telephone; the
  profile page of the other fails. The slots endpoint fails, every draw is \<open>1/2\<close>, the
  clock stands at the epoch and the zone is Lima's.
\<close>

definition juanResult :: DoctorSearchResult where
  "juanResult =
     \<lparr>result_doctorId = js ''1'', result_doctorName = js ''Dr. Juan Perez'',
      result_doctorUrl = js ''/juan-perez'', result_addressId = js ''7'',
      result_specialty = js ''Cardiologo'', result_city = js ''Lima'',
      result_rating = None, result_reviewCount = 0\<rparr>"

definition anaResult :: DoctorSearchResult where
  "anaResult =
     \<lparr>result_doctorId = js ''2'', result_doctorName = js ''Dra. Ana Ruiz'',
      result_doctorUrl = js ''/ana-ruiz'', result_addressId = js ''8'',
      result_specialty = js ''Pediatra'', result_city = js ''Lima'',
      result_rating = None, result_reviewCount = 0\<rparr>"

definition barePage :: profileDoc where
  "barePage =
     \<lparr>addressBlocks = [], streetAddress = None, metaStreet = None, containerSpans = [],
      paragraphSpans = [], phoneMeta = Some (js ''+51 987 654 321''), bodyText = [],
      serviceItems = [], serviceHeadings = []\<rparr>"

definition exampleWorld :: world where
  "exampleWorld =
     \<lparr>random = (\<lambda>i. 1 / 2), clock = (\<lambda>i. 0), tzOffset = - 18000000,
      searchPage = (\<lambda>n c page.
         if page = 1 then Inl (Error (js ''timeout''))
         else if page = 2 then Inr [juanResult, juanResult, anaResult]
         else Inr []),
      profilePage = (\<lambda>n url. if url = js ''/juan-perez'' then Inr barePage else Inl (HttpError 500)),
      slotsEndpoint = (\<lambda>n d a. Inl (HttpError 500))\<rparr>"

definition exampleConfig :: config where
  "exampleConfig = \<lparr>cities = [js ''Lima''], maxDoctorsPerCity = Some 45, useRealAvailability = True\<rparr>"

text \<open>The record of the first doctor, when its profile is requested at position \<open>n\<close>.\<close>

definition juanRecord :: "nat \<Rightarrow> DoctorData" where
  "juanRecord n = fst (profileRecord exampleWorld exampleConfig (n + 1) juanResult barePage)"

text \<open>
  A small outside for the crawl by specialty: the listing of every specialty and city
  has the person of the unit tests twice, in two cards.
\<close>

definition perezCard :: DoctorData where
  "perezCard = testDoctor (js ''Juan Perez Garcia'') (js ''Cardiologo'')"

definition exampleWorld_specialty :: world_specialty where
  "exampleWorld_specialty =
     \<lparr>listingPage = (\<lambda>n s c. Inr \<lparr>doctorCards = [Some perezCard, Some perezCard],
                                   alternativeCards = []\<rparr>),
      homePage = (\<lambda>n. Inl (HttpError 500))\<rparr>"

definition exampleConfig_specialty :: config_specialty where
  "exampleConfig_specialty =
     \<lparr>specialties = [js ''cardiologia''], cities_specialty = [js ''Lima''],
      maxDoctorsPerSpecialty = Some 15\<rparr>"

section \<open>Deduplication in words\<close>

text \<open>
  The doctors pushed by a stretch of a crawl that started with the set \<open>before\<close> and ended
  with the set \<open>after\<close>: their URLs are pairwise distinct, none was in \<open>before\<close>, and
  \<open>after\<close> is \<open>before\<close> with them.
\<close>

definition freshUrls :: "jsstring set \<Rightarrow> DoctorData list \<Rightarrow> jsstring set \<Rightarrow> bool" where
  "freshUrls before doctors after \<longleftrightarrow>
     distinct (map profileUrl doctors) \<and> set (map profileUrl doctors) \<inter> before = {} \<and>
     after = before \<union> set (map profileUrl doctors)"

text \<open>An outside where every search page fails.\<close>

definition deadWorld :: world where
  "deadWorld = exampleWorld\<lparr>searchPage := (\<lambda>n c page. Inl (Error (js ''timeout'')))\<rparr>"

(* ---- end of the embedding ---- *)

section \<open>Strings: basic facts\<close>

lemma startsWith_iff: "startsWith s w \<longleftrightarrow> (\<exists>b. s = w @ b)"
  by (induction s w rule: startsWith.induct) auto

lemma includesStr_iff: "includesStr s w \<longleftrightarrow> (\<exists>a b. s = a @ w @ b)"
proof (induction s)
  case Nil
  then show ?case by auto
next
  case (Cons c cs)
  show ?case
  proof
    assume "includesStr (c # cs) w"
    then consider "startsWith (c # cs) w" | "includesStr cs w" by auto
    then show "\<exists>a b. c # cs = a @ w @ b"
    proof cases
      case 1
      then obtain b where "c # cs = w @ b" using startsWith_iff by blast
      then have "c # cs = [] @ w @ b" by simp
      then show ?thesis by blast
    next
      case 2
      then obtain a b where "cs = a @ w @ b" using Cons.IH by blast
      then have "c # cs = (c # a) @ w @ b" by simp
      then show ?thesis by blast
    qed
  next
    assume "\<exists>a b. c # cs = a @ w @ b"
    then obtain a b where ab: "c # cs = a @ w @ b" by blast
    show "includesStr (c # cs) w"
    proof (cases a)
      case Nil
      then have "startsWith (c # cs) w" using ab startsWith_iff by auto
      then show ?thesis by simp
    next
      case (Cons x a')
      then have "cs = a' @ w @ b" using ab by simp
      then have "includesStr cs w" using Cons.IH by blast
      then show ?thesis by simp
    qed
  qed
qed

lemma toLowerCase_append: "toLowerCase (a @ b) = toLowerCase a @ toLowerCase b"
  by (simp add: toLowerCase_def)

lemma includesStr_lower_part:
  "includesStr (toLowerCase (a @ s @ b)) (toLowerCase s)"
  unfolding includesStr_iff toLowerCase_append by blast

lemma length_splitFrom: "length (splitFrom sep piece s) = Suc (count_list s sep)"
  by (induction s arbitrary: piece) auto

lemma length_splitOn: "length (splitOn sep s) = Suc (count_list s sep)"
  by (simp add: splitOn_def length_splitFrom)

lemma splitOn_two_iff: "2 \<le> length (splitOn sep s) \<longleftrightarrow> sep \<in> set s"
proof -
  have "2 \<le> length (splitOn sep s) \<longleftrightarrow> count_list s sep \<noteq> 0"
    unfolding length_splitOn by arith
  then show ?thesis by (simp add: count_list_0_iff)
qed

lemma containsTerm_iff: "containsTerm n w \<longleftrightarrow> includesStr (toLowerCase n) w"
proof
  assume "containsTerm n w"
  then obtain a s b where "n = a @ s @ b" "toLowerCase s = w"
    unfolding containsTerm_def by blast
  then show "includesStr (toLowerCase n) w" using includesStr_lower_part by blast
next
  assume "includesStr (toLowerCase n) w"
  then obtain a' b' where "map lowerUnit n = a' @ w @ b'"
    unfolding includesStr_iff toLowerCase_def by blast
  then obtain a r where n: "n = a @ r" and "map lowerUnit r = w @ b'"
    by (metis map_eq_append_conv)
  then obtain s b where "r = s @ b" "map lowerUnit s = w"
    by (metis map_eq_append_conv)
  then show "containsTerm n w" unfolding containsTerm_def toLowerCase_def using n by blast
qed

lemma wsTokens_Nil_iff: "wsTokens s = [] \<longleftrightarrow> (\<forall>c\<in>set s. isSpace c)"
  by (subst wsTokens.simps) (auto simp: Let_def)

text \<open>
  A trimmed name with a space in it has a token before the space and one after it,
  since it neither starts nor ends with whitespace.
\<close>

lemma trim_space_tokens:
  assumes "32 \<in> set (trim s)"
  shows "2 \<le> length (wsTokens s)"
proof -
  define t where "t = dropWhile isSpace s"
  define u where "u = dropWhile isSpace (rev t)"
  define rest where "rest = dropWhile (\<lambda>c. \<not> isSpace c) t"
  have sp: "isSpace 32" by (simp add: isSpace_def)
  have mem: "32 \<in> set u" using assms by (simp add: trim_def t_def u_def)
  then have une: "u \<noteq> []" by auto
  then have hd: "\<not> isSpace (hd u)" unfolding u_def by (rule hd_dropWhile)
  obtain x u' where u: "u = x # u'" using une by (cases u) auto
  have x: "\<not> isSpace x" using hd u by simp
  have mem': "32 \<in> set u'" using mem u x sp by auto
  have "\<exists>p. rev t = p @ u" unfolding u_def by (metis takeWhile_dropWhile_id)
  then obtain p where "rev t = p @ x # u'" using u by auto
  then have "rev (rev t) = rev (p @ x # u')" by simp
  then have tt: "t = rev u' @ x # rev p" by simp
  have tne: "t \<noteq> []" using tt by auto
  have "x \<in> set rest"
  proof -
    obtain q1 q2 where "rev u' = q1 @ 32 # q2" using mem' by (metis set_rev split_list)
    then have "t = q1 @ 32 # (q2 @ x # rev p)" using tt by simp
    then have "rest = dropWhile (\<lambda>c. \<not> isSpace c) q1 @ 32 # (q2 @ x # rev p)
                 \<or> rest = 32 # (q2 @ x # rev p)"
      unfolding rest_def using sp by (simp add: dropWhile_append)
    then show ?thesis by auto
  qed
  then have "wsTokens rest \<noteq> []" using x wsTokens_Nil_iff by blast
  moreover have "wsTokens s = takeWhile (\<lambda>c. \<not> isSpace c) t # wsTokens rest"
    using tne by (subst wsTokens.simps) (simp add: Let_def t_def rest_def)
  ultimately show ?thesis by (cases "wsTokens rest") auto
qed

section \<open>The validator and the denylists\<close>

text \<open>
  C1, as the two validators have it. Each validator rejects every record whose full
  name contains, as a case-insensitive substring, a term of its own list. The list of
  the crawl by specialty is \<open>clinicKeywords\<close>: clinic, center (\<open>centro\<close> alone),
  hospital, polyclinic, medical services and the named facilities. The list of the crawl
  by city is \<open>blacklist\<close>: five terms, with the center only inside the phrase for a medical
  center and no named facility.
\<close>

theorem isValidDoctor_rejects_listed_terms:
  "(keyword \<in> set clinicKeywords \<and> containsTerm (fullName d) keyword
      \<longrightarrow> \<not> isValidDoctor_specialty d) \<and>
   (word \<in> set blacklist \<and> containsTerm (fullName e) word
      \<longrightarrow> \<not> isValidDoctor_city e)"
  by (auto simp: isValidDoctor_specialty_def isValidDoctor_city_def containsTerm_iff
      list_ex_iff Let_def)

text \<open>
  The clinic of the unit tests (San Pablo) is rejected by both validators for the term
  for a clinic, written with its accent.
\<close>

theorem isValidDoctor_rejects_listed_terms_witness:
  "js ''cl'' @ [237] @ js ''nica'' \<in> set clinicKeywords \<and>
   js ''cl'' @ [237] @ js ''nica'' \<in> set blacklist \<and>
   containsTerm ([67, 108, 237] @ js ''nica San Pablo'') (js ''cl'' @ [237] @ js ''nica'') \<and>
   \<not> isValidDoctor_specialty (testDoctor ([67, 108, 237] @ js ''nica San Pablo'') (js ''General'')) \<and>
   \<not> isValidDoctor_city (testDoctor ([67, 108, 237] @ js ''nica San Pablo'') (js ''General''))"
  using isValidDoctor_rejects_listed_terms
    [of "js ''cl'' @ [237] @ js ''nica''"
        "testDoctor ([67, 108, 237] @ js ''nica San Pablo'') (js ''General'')"
        "js ''cl'' @ [237] @ js ''nica''"
        "testDoctor ([67, 108, 237] @ js ''nica San Pablo'') (js ''General'')"]
  by (simp add: clinicKeywords_def blacklist_def containsTerm_iff testDoctor_def js_def
      toLowerCase_def lowerUnit_def)

text \<open>
  The validator of the crawl by city accepts a name that contains \<open>centro\<close>, a term
  of the other list.
\<close>

theorem isValidDoctor_city_accepts_centro:
  "js ''centro'' \<in> set clinicKeywords \<and>
   containsTerm (js ''Ana Centro'') (js ''centro'') \<and>
   isValidDoctor_city (testDoctor (js ''Ana Centro'') (js ''General''))"
  by (simp add: isValidDoctor_city_def testDoctor_def js_def toLowerCase_def lowerUnit_def
      blacklist_def clinicKeywords_def toUpperCase_def upperUnits_def trim_def isSpace_def
      containsTerm_iff splitOn_def)

section \<open>The validator, tokens and the default\<close>

text \<open>
  C5, as the two validators have it. The validator of the crawl by city rejects every
  record whose full name has fewer than two whitespace-separated tokens, and accepts
  when none of its rules fires: no term of \<open>blacklist\<close> in the name, not an upper-case
  name with a space, and at least two parts when the trimmed name is split at its single
  spaces. The validator of the crawl by specialty has no rule on tokens; it accepts when
  none of its rules fires: no term of \<open>clinicKeywords\<close> in the name, not an upper-case
  name with a space, and the name is not the specialty.
\<close>

theorem isValidDoctor_tokens_and_default:
  "(length (wsTokens (fullName d)) < 2 \<longrightarrow> \<not> isValidDoctor_city d) \<and>
   (\<not> (\<exists>word \<in> set blacklist. containsTerm (fullName e) word) \<and>
    \<not> (fullName e = toUpperCase (fullName e) \<and> includesStr (fullName e) (js '' '')) \<and>
    \<not> length (splitOn 32 (trim (fullName e))) < 2
      \<longrightarrow> isValidDoctor_city e) \<and>
   (\<not> (\<exists>keyword \<in> set clinicKeywords. containsTerm (fullName f) keyword) \<and>
    \<not> (fullName f = toUpperCase (fullName f) \<and> includesStr (fullName f) (js '' '')) \<and>
    fullName f \<noteq> specialty f
      \<longrightarrow> isValidDoctor_specialty f)"
proof (intro conjI impI)
  assume few: "length (wsTokens (fullName d)) < 2"
  have "32 \<notin> set (trim (fullName d))"
    using few trim_space_tokens [of "fullName d"] by auto
  then have "\<not> 2 \<le> length (splitOn 32 (trim (fullName d)))"
    by (simp add: splitOn_two_iff)
  then show "\<not> isValidDoctor_city d"
    by (simp add: isValidDoctor_city_def Let_def)
next
  assume "\<not> (\<exists>word \<in> set blacklist. containsTerm (fullName e) word) \<and>
    \<not> (fullName e = toUpperCase (fullName e) \<and> includesStr (fullName e) (js '' '')) \<and>
    \<not> length (splitOn 32 (trim (fullName e))) < 2"
  then show "isValidDoctor_city e"
    by (auto simp: isValidDoctor_city_def Let_def list_ex_iff containsTerm_iff)
next
  assume "\<not> (\<exists>keyword \<in> set clinicKeywords. containsTerm (fullName f) keyword) \<and>
    \<not> (fullName f = toUpperCase (fullName f) \<and> includesStr (fullName f) (js '' '')) \<and>
    fullName f \<noteq> specialty f"
  then show "isValidDoctor_specialty f"
    by (auto simp: isValidDoctor_specialty_def Let_def list_ex_iff containsTerm_iff)
qed

text \<open>
  The one-token name \<open>Juan\<close> is rejected by the validator of the crawl by city; the
  person of the unit tests, with three tokens, is accepted by both validators.
\<close>

theorem isValidDoctor_tokens_and_default_witness:
  "length (wsTokens (js ''Juan'')) < 2 \<and>
   \<not> isValidDoctor_city (testDoctor (js ''Juan'') (js ''General'')) \<and>
   isValidDoctor_city
     (testDoctor (js ''Juan P'' @ [233] @ js ''rez Garc'' @ [237] @ js ''a'')
        (js ''Cardi'' @ [243] @ js ''logo'')) \<and>
   isValidDoctor_specialty
     (testDoctor (js ''Juan P'' @ [233] @ js ''rez Garc'' @ [237] @ js ''a'')
        (js ''Cardi'' @ [243] @ js ''logo''))"
proof -
  define juan where "juan = testDoctor (js ''Juan'') (js ''General'')"
  define perez where
    "perez = testDoctor (js ''Juan P'' @ [233] @ js ''rez Garc'' @ [237] @ js ''a'')
       (js ''Cardi'' @ [243] @ js ''logo'')"
  have n: "fullName perez =
      [74, 117, 97, 110, 32, 80, 233, 114, 101, 122, 32, 71, 97, 114, 99, 237, 97]"
    "specialty perez = [67, 97, 114, 100, 105, 243, 108, 111, 103, 111]"
    by (simp_all add: perez_def testDoctor_def js_def)
  have l: "toLowerCase (fullName perez) =
      [106, 117, 97, 110, 32, 112, 233, 114, 101, 122, 32, 103, 97, 114, 99, 237, 97]"
    unfolding n by (simp add: toLowerCase_def lowerUnit_def)
  have u: "toUpperCase (fullName perez) =
      [74, 85, 65, 78, 32, 80, 201, 82, 69, 90, 32, 71, 65, 82, 67, 205, 65]"
    unfolding n by (simp add: toUpperCase_def upperUnits_def)
  have t: "trim (fullName perez) = fullName perez"
    unfolding n by (simp add: trim_def isSpace_def)
  have b: "\<not> (\<exists>word \<in> set blacklist. containsTerm (fullName perez) word)"
    unfolding containsTerm_iff l by (simp add: blacklist_def js_def)
  have k: "\<not> (\<exists>word \<in> set clinicKeywords. containsTerm (fullName perez) word)"
    unfolding containsTerm_iff l by (simp add: clinicKeywords_def js_def)
  have c: "\<not> (fullName perez = toUpperCase (fullName perez)
             \<and> includesStr (fullName perez) (js '' ''))"
    unfolding u unfolding n by simp
  have p: "\<not> length (splitOn 32 (trim (fullName perez))) < 2"
    unfolding t unfolding n by (simp add: splitOn_def)
  have s: "fullName perez \<noteq> specialty perez"
    unfolding n by simp
  have j: "length (wsTokens (fullName juan)) < 2"
    by (simp add: juan_def testDoctor_def js_def wsTokens.simps isSpace_def)
  show ?thesis
    using isValidDoctor_tokens_and_default [of juan perez perez] b k c p s j
    unfolding juan_def perez_def by (simp add: testDoctor_def)
qed

text \<open>
  The validator of the crawl by specialty accepts the one-token name \<open>Juan\<close>.
\<close>

theorem isValidDoctor_specialty_accepts_one_token:
  "length (wsTokens (js ''Juan'')) < 2 \<and>
   isValidDoctor_specialty (testDoctor (js ''Juan'') (js ''General''))"
  by (simp add: isValidDoctor_specialty_def testDoctor_def js_def wsTokens.simps isSpace_def
      toLowerCase_def lowerUnit_def toUpperCase_def upperUnits_def clinicKeywords_def)

section \<open>Neighbouring code units\<close>

lemma isComma_iff: "isComma c \<longleftrightarrow> c = 44" by (simp add: isComma_def)

lemma hasAdjacent_Cons:
  "hasAdjacent P Q (a # s) \<longleftrightarrow> (s \<noteq> [] \<and> P a \<and> Q (hd s)) \<or> hasAdjacent P Q s"
  by (cases s) auto

lemma hasAdjacent_iff:
  "hasAdjacent P Q s \<longleftrightarrow> (\<exists>p a b q. s = p @ a # b # q \<and> P a \<and> Q b)"
proof (induction P Q s rule: hasAdjacent.induct)
  case (1 P Q a b r)
  show ?case
  proof
    assume "hasAdjacent P Q (a # b # r)"
    then consider "P a \<and> Q b" | "hasAdjacent P Q (b # r)" by auto
    then show "\<exists>p a' b' q. a # b # r = p @ a' # b' # q \<and> P a' \<and> Q b'"
    proof cases
      case 1
      then have "a # b # r = [] @ a # b # r \<and> P a \<and> Q b" by simp
      then show ?thesis by blast
    next
      case 2
      then obtain p a' b' q where "b # r = p @ a' # b' # q" "P a'" "Q b'" using "1.IH" by blast
      then have "a # b # r = (a # p) @ a' # b' # q \<and> P a' \<and> Q b'" by simp
      then show ?thesis by blast
    qed
  next
    assume "\<exists>p a' b' q. a # b # r = p @ a' # b' # q \<and> P a' \<and> Q b'"
    then obtain p a' b' q where e: "a # b # r = p @ a' # b' # q" "P a'" "Q b'" by blast
    show "hasAdjacent P Q (a # b # r)"
    proof (cases p)
      case Nil
      then show ?thesis using e by auto
    next
      case (Cons x p')
      then have "b # r = p' @ a' # b' # q" using e by simp
      then have "hasAdjacent P Q (b # r)" using "1.IH" e by blast
      then show ?thesis by simp
    qed
  qed
next
  case (2 P Q a)
  then show ?case by (auto simp: Cons_eq_append_conv)
next
  case (3 P Q)
  then show ?case by simp
qed

lemma hasAdjacent_part:
  assumes "hasAdjacent P Q t" "s = p @ t @ q"
  shows "hasAdjacent P Q s"
proof -
  obtain p' a b q' where "t = p' @ a # b # q'" "P a" "Q b"
    using assms(1) hasAdjacent_iff by blast
  then have "s = (p @ p') @ a # b # (q' @ q) \<and> P a \<and> Q b" using assms(2) by simp
  then show ?thesis unfolding hasAdjacent_iff by blast
qed

lemma hasAdjacent_rev: "hasAdjacent P Q (rev s) \<longleftrightarrow> hasAdjacent Q P s"
proof -
  have "\<And>P Q s. hasAdjacent P Q s \<Longrightarrow> hasAdjacent Q P (rev s)"
  proof -
    fix P Q s assume "hasAdjacent P Q s"
    then obtain p a b q where "s = p @ a # b # q" "P a" "Q b" using hasAdjacent_iff by blast
    then have "rev s = rev q @ b # a # rev p \<and> Q b \<and> P a" by simp
    then show "hasAdjacent Q P (rev s)" unfolding hasAdjacent_iff by blast
  qed
  from this [of P Q "rev s"] this [of Q P s] show ?thesis by auto
qed

lemma dropWhile_part: "\<exists>p. s = p @ dropWhile R s @ []"
  by (metis append_Nil2 takeWhile_dropWhile_id)

lemma tl_part: "\<exists>p. s = p @ tl s @ []"
  by (cases s) auto

lemma hasAdjacent_dropWhile: "hasAdjacent P Q (dropWhile R s) \<Longrightarrow> hasAdjacent P Q s"
  using hasAdjacent_part [of P Q "dropWhile R s" s "takeWhile R s" "[]"] by simp

lemma hasAdjacent_tl: "hasAdjacent P Q (tl s) \<Longrightarrow> hasAdjacent P Q s"
  by (cases s) (auto simp: hasAdjacent_Cons)

lemma not_isSpace_comma: "\<not> isSpace 44" by (simp add: isSpace_def)
lemma isSpace_32: "isSpace 32" by (simp add: isSpace_def)

subsection \<open>Runs of whitespace\<close>

lemma replaceSpaceRuns_hd:
  "replaceSpaceRuns s \<noteq> [] \<Longrightarrow> isSpace (hd (replaceSpaceRuns s)) \<Longrightarrow> isSpace (hd s)"
  by (cases s) (auto split: if_splits)

lemma replaceSpaceRuns_Nil: "replaceSpaceRuns s = [] \<longleftrightarrow> s = []"
  by (cases s) auto

lemma replaceSpaceRuns_plain: "c \<in> set (replaceSpaceRuns s) \<Longrightarrow> isSpace c \<Longrightarrow> c = 32"
  by (induction s rule: replaceSpaceRuns.induct) (auto split: if_splits)

lemma replaceSpaceRuns_single: "\<not> hasAdjacent isSpace isSpace (replaceSpaceRuns s)"
proof (induction s rule: replaceSpaceRuns.induct)
  case 1
  then show ?case by simp
next
  case (2 c cs)
  show ?case
  proof (cases "isSpace c")
    case True
    let ?r = "dropWhile isSpace cs"
    have "replaceSpaceRuns ?r \<noteq> [] \<Longrightarrow> \<not> isSpace (hd (replaceSpaceRuns ?r))"
      using replaceSpaceRuns_hd [of ?r] hd_dropWhile [of isSpace cs]
      by (auto simp: replaceSpaceRuns_Nil)
    then show ?thesis using True 2 by (auto simp: hasAdjacent_Cons)
  next
    case False
    then show ?thesis using 2 by (auto simp: hasAdjacent_Cons)
  qed
qed


subsection \<open>Newlines and tabs\<close>

lemma removeUnit_id: "u \<notin> set s \<Longrightarrow> removeUnit u s = s"
  unfolding removeUnit_def by (induction s) auto

lemma replaceSpaceRuns_no_newline_tab:
  "removeUnit 9 (removeUnit 10 (replaceSpaceRuns s)) = replaceSpaceRuns s"
proof -
  have "isSpace 9" "isSpace 10" by (simp_all add: isSpace_def)
  then have "9 \<notin> set (replaceSpaceRuns s)" "10 \<notin> set (replaceSpaceRuns s)"
    using replaceSpaceRuns_plain by fastforce+
  then show ?thesis by (simp add: removeUnit_id)
qed

lemma set_tl_dropWhile: "set (tl (dropWhile R cs)) \<subseteq> set cs"
proof
  fix x assume "x \<in> set (tl (dropWhile R cs))"
  then have "x \<in> set (dropWhile R cs)" by (cases "dropWhile R cs") auto
  then show "x \<in> set cs" by (rule set_dropWhileD)
qed

subsection \<open>Pairs of commas\<close>

lemma collapseCommaPairs_set: "set (collapseCommaPairs s) \<subseteq> set s"
proof (induction s rule: collapseCommaPairs.induct)
  case 1
  then show ?case by simp
next
  case (2 c cs)
  have "set (tl (dropWhile isSpace cs)) \<subseteq> set cs"
    by (rule set_tl_dropWhile)
  then show ?case using 2 by (auto split: if_splits)
qed

lemma collapseCommaPairs_Nil: "collapseCommaPairs s = [] \<longleftrightarrow> s = []"
  by (cases s) auto

lemma collapseCommaPairs_hd: "s \<noteq> [] \<Longrightarrow> hd (collapseCommaPairs s) = hd s"
  by (cases s) auto

lemma collapseCommaPairs_single:
  "\<not> hasAdjacent isSpace isSpace s \<Longrightarrow> \<not> hasAdjacent isSpace isSpace (collapseCommaPairs s)"
proof (induction s rule: collapseCommaPairs.induct)
  case 1
  then show ?case by simp
next
  case (2 c cs)
  have cs: "\<not> hasAdjacent isSpace isSpace cs" using "2.prems" by (auto simp: hasAdjacent_Cons)
  show ?case
  proof (cases "c = 44 \<and> commaAfterSpaces cs")
    case True
    have "\<not> hasAdjacent isSpace isSpace (tl (dropWhile isSpace cs))"
      using cs hasAdjacent_tl hasAdjacent_dropWhile by blast
    then show ?thesis using True "2.IH"(1) not_isSpace_comma by (auto simp: hasAdjacent_Cons)
  next
    case False
    then have "\<not> hasAdjacent isSpace isSpace (collapseCommaPairs cs)" using "2.IH"(2) cs by blast
    then show ?thesis using False "2.prems"
      by (auto simp: hasAdjacent_Cons collapseCommaPairs_Nil collapseCommaPairs_hd)
  qed
qed

subsection \<open>Whitespace before a comma\<close>

lemma dropSpacesBeforeCommas_set: "x \<in> set (dropSpacesBeforeCommas s) \<Longrightarrow> x \<in> set s \<or> x = 44"
proof (induction s rule: dropSpacesBeforeCommas.induct)
  case 1
  then show ?case by simp
next
  case (2 c cs)
  have "set (tl (dropWhile isSpace cs)) \<subseteq> set cs"
    by (rule set_tl_dropWhile)
  then show ?case using 2 by (auto split: if_splits)
qed

lemma dropSpacesBeforeCommas_Nil: "dropSpacesBeforeCommas s = [] \<longleftrightarrow> s = []"
  by (cases s) auto

lemma dropSpacesBeforeCommas_hd_space:
  "s \<noteq> [] \<Longrightarrow> isSpace (hd (dropSpacesBeforeCommas s)) \<Longrightarrow> isSpace (hd s)"
  using not_isSpace_comma by (cases s) (auto split: if_splits)

lemma commaAfterSpaces_Cons:
  "commaAfterSpaces (c # cs) \<longleftrightarrow> (if isSpace c then commaAfterSpaces cs else c = 44)"
  by (simp add: commaAfterSpaces_def)

lemma dropSpacesBeforeCommas_hd_comma:
  "s \<noteq> [] \<Longrightarrow> hd (dropSpacesBeforeCommas s) = 44 \<Longrightarrow> commaAfterSpaces s"
  using not_isSpace_comma by (cases s) (auto simp: commaAfterSpaces_Cons split: if_splits)

lemma dropSpacesBeforeCommas_single:
  "\<not> hasAdjacent isSpace isSpace s \<Longrightarrow> \<not> hasAdjacent isSpace isSpace (dropSpacesBeforeCommas s)"
proof (induction s rule: dropSpacesBeforeCommas.induct)
  case 1
  then show ?case by simp
next
  case (2 c cs)
  have cs: "\<not> hasAdjacent isSpace isSpace cs" using "2.prems" by (auto simp: hasAdjacent_Cons)
  show ?case
  proof (cases "isSpace c \<and> commaAfterSpaces cs")
    case True
    have "\<not> hasAdjacent isSpace isSpace (tl (dropWhile isSpace cs))"
      using cs hasAdjacent_tl hasAdjacent_dropWhile by blast
    then show ?thesis using True "2.IH"(1) not_isSpace_comma by (auto simp: hasAdjacent_Cons)
  next
    case False
    then have "\<not> hasAdjacent isSpace isSpace (dropSpacesBeforeCommas cs)" using "2.IH"(2) cs by blast
    then show ?thesis using False "2.prems" dropSpacesBeforeCommas_hd_space [of cs]
      by (auto simp: hasAdjacent_Cons dropSpacesBeforeCommas_Nil)
  qed
qed

lemma dropSpacesBeforeCommas_no_space_comma:
  "\<not> hasAdjacent isSpace isComma (dropSpacesBeforeCommas s)"
proof (induction s rule: dropSpacesBeforeCommas.induct)
  case 1
  then show ?case by simp
next
  case (2 c cs)
  show ?case
  proof (cases "isSpace c \<and> commaAfterSpaces cs")
    case True
    then show ?thesis using "2.IH"(1) not_isSpace_comma by (auto simp: hasAdjacent_Cons)
  next
    case False
    then have ih: "\<not> hasAdjacent isSpace isComma (dropSpacesBeforeCommas cs)" using "2.IH"(2) by blast
    have "\<not> (cs \<noteq> [] \<and> isSpace c \<and> isComma (hd (dropSpacesBeforeCommas cs)))"
      using False dropSpacesBeforeCommas_hd_comma [of cs] by (auto simp: isComma_def)
    then show ?thesis using False ih
      by (auto simp: hasAdjacent_Cons dropSpacesBeforeCommas_Nil)
  qed
qed

subsection \<open>Whitespace after a comma\<close>

lemma oneSpaceAfterCommas_set: "x \<in> set (oneSpaceAfterCommas s) \<Longrightarrow> x \<in> set s \<or> x = 32"
proof (induction s rule: oneSpaceAfterCommas.induct)
  case 1
  then show ?case by simp
next
  case (2 c cs)
  then show ?case by (auto split: if_splits dest: set_dropWhileD)
qed

lemma oneSpaceAfterCommas_Nil: "oneSpaceAfterCommas s = [] \<longleftrightarrow> s = []"
  by (cases s) auto

lemma oneSpaceAfterCommas_hd: "s \<noteq> [] \<Longrightarrow> hd (oneSpaceAfterCommas s) = hd s"
  by (cases s) auto

lemma oneSpaceAfterCommas_single:
  "\<not> hasAdjacent isSpace isSpace s \<Longrightarrow> \<not> hasAdjacent isSpace isSpace (oneSpaceAfterCommas s)"
proof (induction s rule: oneSpaceAfterCommas.induct)
  case 1
  then show ?case by simp
next
  case (2 c cs)
  have cs: "\<not> hasAdjacent isSpace isSpace cs" using "2.prems" by (auto simp: hasAdjacent_Cons)
  show ?case
  proof (cases "c = 44 \<and> cs \<noteq> [] \<and> isSpace (hd cs)")
    case True
    let ?r = "dropWhile isSpace cs"
    have r: "\<not> hasAdjacent isSpace isSpace ?r" using cs hasAdjacent_dropWhile by blast
    have "oneSpaceAfterCommas ?r \<noteq> [] \<Longrightarrow> \<not> isSpace (hd (oneSpaceAfterCommas ?r))"
      by (metis hd_dropWhile oneSpaceAfterCommas_hd oneSpaceAfterCommas_Nil)
    then show ?thesis using True "2.IH"(1) r not_isSpace_comma
      by (auto simp: hasAdjacent_Cons)
  next
    case False
    then have "\<not> hasAdjacent isSpace isSpace (oneSpaceAfterCommas cs)" using "2.IH"(2) cs by blast
    then show ?thesis using False "2.prems"
      by (auto simp: hasAdjacent_Cons oneSpaceAfterCommas_Nil oneSpaceAfterCommas_hd)
  qed
qed

lemma space_run_before_comma:
  assumes "cs \<noteq> []" "isSpace (hd cs)" "dropWhile isSpace cs \<noteq> []" "hd (dropWhile isSpace cs) = 44"
  shows "hasAdjacent isSpace isComma cs"
proof -
  let ?t = "takeWhile isSpace cs"
  have t: "?t \<noteq> []" using assms(1,2) by (cases cs) auto
  obtain r where r: "dropWhile isSpace cs = 44 # r" using assms(3,4) by (cases "dropWhile isSpace cs") auto
  have "cs = ?t @ 44 # r" using r by (metis takeWhile_dropWhile_id)
  then have "cs = butlast ?t @ last ?t # 44 # r" using t by (metis append_butlast_last_id append.assoc append_Cons append_Nil)
  moreover have "isSpace (last ?t)" using t by (metis last_in_set set_takeWhileD)
  ultimately show ?thesis unfolding hasAdjacent_iff using isComma_iff by blast
qed

lemma oneSpaceAfterCommas_no_space_comma:
  "\<not> hasAdjacent isSpace isComma s \<Longrightarrow> \<not> hasAdjacent isSpace isComma (oneSpaceAfterCommas s)"
proof (induction s rule: oneSpaceAfterCommas.induct)
  case 1
  then show ?case by simp
next
  case (2 c cs)
  have cs: "\<not> hasAdjacent isSpace isComma cs" using "2.prems" by (auto simp: hasAdjacent_Cons)
  show ?case
  proof (cases "c = 44 \<and> cs \<noteq> [] \<and> isSpace (hd cs)")
    case True
    let ?r = "dropWhile isSpace cs"
    have r: "\<not> hasAdjacent isSpace isComma ?r" using cs hasAdjacent_dropWhile by blast
    have "\<not> (?r \<noteq> [] \<and> hd ?r = 44)"
      using space_run_before_comma [of cs] True cs by blast
    then have "\<not> (oneSpaceAfterCommas ?r \<noteq> [] \<and> isComma (hd (oneSpaceAfterCommas ?r)))"
      by (metis isComma_def oneSpaceAfterCommas_hd oneSpaceAfterCommas_Nil)
    then show ?thesis using True "2.IH"(1) r not_isSpace_comma
      by (auto simp: hasAdjacent_Cons)
  next
    case False
    then have "\<not> hasAdjacent isSpace isComma (oneSpaceAfterCommas cs)" using "2.IH"(2) cs by blast
    then show ?thesis using False "2.prems"
      by (auto simp: hasAdjacent_Cons oneSpaceAfterCommas_Nil oneSpaceAfterCommas_hd)
  qed
qed

subsection \<open>The ends of the string\<close>

lemma stripLeadingComma_part: "\<exists>p. s = p @ stripLeadingComma s"
proof (cases "commaAfterSpaces s")
  case True
  let ?d = "dropWhile isSpace s"
  have "s = takeWhile isSpace s @ ?d" by simp
  moreover obtain x where "?d = x @ tl ?d" by (cases ?d) auto
  moreover have "tl ?d = takeWhile isSpace (tl ?d) @ dropWhile isSpace (tl ?d)" by simp
  ultimately have "s = (takeWhile isSpace s @ x @ takeWhile isSpace (tl ?d)) @ dropWhile isSpace (tl ?d)"
    by (metis append.assoc)
  then show ?thesis using True unfolding stripLeadingComma_def by (metis (full_types))
next
  case False
  then show ?thesis by (simp add: stripLeadingComma_def)
qed

lemma stripTrailingComma_part: "\<exists>q. s = stripTrailingComma s @ q"
proof (cases "commaAfterSpaces (rev s)")
  case True
  let ?d = "dropWhile isSpace (rev s)"
  have "rev s = takeWhile isSpace (rev s) @ ?d" by simp
  moreover obtain x where "?d = x @ tl ?d" by (cases ?d) auto
  moreover have "tl ?d = takeWhile isSpace (tl ?d) @ dropWhile isSpace (tl ?d)" by simp
  ultimately have "rev s = (takeWhile isSpace (rev s) @ x @ takeWhile isSpace (tl ?d)) @ dropWhile isSpace (tl ?d)"
    by (metis append.assoc)
  then have "s = rev (dropWhile isSpace (tl ?d)) @ rev (takeWhile isSpace (rev s) @ x @ takeWhile isSpace (tl ?d))"
    by (metis rev_append rev_rev_ident)
  then show ?thesis using True unfolding stripTrailingComma_def by (metis (full_types))
next
  case False
  then show ?thesis by (simp add: stripTrailingComma_def)
qed

lemma trim_part: "\<exists>p q. s = p @ trim s @ q"
proof -
  let ?t = "dropWhile isSpace s"
  have "rev ?t = takeWhile isSpace (rev ?t) @ dropWhile isSpace (rev ?t)" by simp
  then have "?t = trim s @ rev (takeWhile isSpace (rev ?t))"
    unfolding trim_def by (metis rev_append rev_rev_ident)
  then have "s = takeWhile isSpace s @ trim s @ rev (takeWhile isSpace (rev ?t))"
    by (metis takeWhile_dropWhile_id)
  then show ?thesis by blast
qed

lemma trim_ends:
  assumes "trim s \<noteq> []"
  shows "\<not> isSpace (hd (trim s)) \<and> \<not> isSpace (last (trim s))"
proof -
  let ?t = "dropWhile isSpace s"
  let ?u = "dropWhile isSpace (rev ?t)"
  have u: "?u \<noteq> []" using assms by (simp add: trim_def)
  then have t: "?t \<noteq> []" by (metis dropWhile.simps(1) rev.simps(1))
  have "last (trim s) = hd ?u" unfolding trim_def using u by (simp add: last_rev)
  moreover have "\<not> isSpace (hd ?u)" using u by (rule hd_dropWhile)
  moreover have "hd (trim s) = last ?u" unfolding trim_def using u by (simp add: hd_rev)
  moreover have "last ?u = last (rev ?t)" using u by (metis last_appendR takeWhile_dropWhile_id)
  moreover have "last (rev ?t) = hd ?t" using t by (simp add: last_rev)
  moreover have "\<not> isSpace (hd ?t)" using t by (rule hd_dropWhile)
  ultimately show ?thesis by simp
qed

section \<open>The commas of an address, whitespace aside\<close>

lemma unspaced_Cons: "unspaced (c # cs) = (if isSpace c then unspaced cs else c # unspaced cs)"
  by (simp add: unspaced_def)

lemma unspaced_Nil: "unspaced [] = []" by (simp add: unspaced_def)

lemma unspaced_append: "unspaced (a @ b) = unspaced a @ unspaced b" by (simp add: unspaced_def)

lemma unspaced_rev: "unspaced (rev s) = rev (unspaced s)" by (simp add: unspaced_def rev_filter)

lemma unspaced_dropWhile: "unspaced (dropWhile isSpace s) = unspaced s"
  by (induction s) (auto simp: unspaced_Cons unspaced_Nil)

lemma unspaced_spaces: "(\<forall>c\<in>set w. isSpace c) \<Longrightarrow> unspaced w = []"
  by (induction w) (auto simp: unspaced_Cons unspaced_Nil)

lemma unspaced_takeWhile: "unspaced (takeWhile isSpace s) = []"
  by (rule unspaced_spaces) (auto dest: set_takeWhileD)

lemma commaAfterSpaces_unspaced:
  "commaAfterSpaces s \<longleftrightarrow> unspaced s \<noteq> [] \<and> hd (unspaced s) = 44"
  using not_isSpace_comma
  by (induction s) (auto simp: commaAfterSpaces_Cons unspaced_Cons unspaced_Nil commaAfterSpaces_def)

lemma dropWhile_comma_tl:
  assumes "commaAfterSpaces s"
  shows "unspaced (tl (dropWhile isSpace s)) = tl (unspaced s)"
proof -
  obtain r where r: "dropWhile isSpace s = 44 # r"
    using assms unfolding commaAfterSpaces_def by (cases "dropWhile isSpace s") auto
  have "unspaced s = unspaced (44 # r)" using r unspaced_dropWhile by metis
  then show ?thesis using r not_isSpace_comma by (simp add: unspaced_Cons)
qed

lemma unspaced_replaceSpaceRuns: "unspaced (replaceSpaceRuns s) = unspaced s"
  using isSpace_32
  by (induction s rule: replaceSpaceRuns.induct) (auto simp: unspaced_Cons unspaced_Nil unspaced_dropWhile)

lemma unspaced_collapseCommaPairs: "unspaced (collapseCommaPairs s) = collapsePairs (unspaced s)"
proof (induction s rule: collapseCommaPairs.induct)
  case 1
  then show ?case by (simp add: unspaced_Nil)
next
  case (2 c cs)
  show ?case
  proof (cases "c = 44 \<and> commaAfterSpaces cs")
    case True
    then obtain r where r: "unspaced cs = 44 # r"
      unfolding commaAfterSpaces_unspaced by (cases "unspaced cs") auto
    have "unspaced (tl (dropWhile isSpace cs)) = r" using True r dropWhile_comma_tl by simp
    then show ?thesis using True "2.IH"(1) r not_isSpace_comma by (simp add: unspaced_Cons)
  next
    case False
    then have ih: "unspaced (collapseCommaPairs cs) = collapsePairs (unspaced cs)" using "2.IH"(2) by blast
    have step: "collapseCommaPairs (c # cs) = c # collapseCommaPairs cs" using False by auto
    show ?thesis
    proof (cases "isSpace c")
      case True
      then have "c \<noteq> 44" using not_isSpace_comma by auto
      then show ?thesis unfolding step using True ih by (simp add: unspaced_Cons)
    next
      case ns: False
      have "\<not> (c = 44 \<and> unspaced cs \<noteq> [] \<and> hd (unspaced cs) = 44)"
        using False commaAfterSpaces_unspaced by blast
      then have "collapsePairs (c # unspaced cs) = c # collapsePairs (unspaced cs)"
        by (cases "unspaced cs") auto
      then show ?thesis unfolding step using ih ns by (simp add: unspaced_Cons)
    qed
  qed
qed

lemma unspaced_stripLeadingComma:
  "unspaced (stripLeadingComma s) = (if commaAfterSpaces s then tl (unspaced s) else unspaced s)"
  by (simp add: stripLeadingComma_def unspaced_dropWhile dropWhile_comma_tl)

lemma unspaced_stripTrailingComma:
  "unspaced (stripTrailingComma s) =
     (if commaAfterSpaces (rev s) then butlast (unspaced s) else unspaced s)"
proof (cases "commaAfterSpaces (rev s)")
  case True
  have "unspaced (dropWhile isSpace (tl (dropWhile isSpace (rev s)))) = tl (rev (unspaced s))"
    using True by (simp add: unspaced_dropWhile dropWhile_comma_tl unspaced_rev)
  then have "unspaced (stripTrailingComma s) = rev (tl (rev (unspaced s)))"
    using True by (simp add: stripTrailingComma_def unspaced_rev)
  moreover have "rev (tl (rev (unspaced s))) = butlast (unspaced s)"
    by (metis butlast_rev rev_rev_ident)
  ultimately show ?thesis using True by simp
next
  case False
  then show ?thesis by (simp add: stripTrailingComma_def)
qed

lemma unspaced_dropSpacesBeforeCommas: "unspaced (dropSpacesBeforeCommas s) = unspaced s"
proof (induction s rule: dropSpacesBeforeCommas.induct)
  case 1
  then show ?case by simp
next
  case (2 c cs)
  show ?case
  proof (cases "isSpace c \<and> commaAfterSpaces cs")
    case True
    then obtain r where r: "unspaced cs = 44 # r"
      unfolding commaAfterSpaces_unspaced by (cases "unspaced cs") auto
    have "unspaced (tl (dropWhile isSpace cs)) = r" using True r dropWhile_comma_tl by simp
    then show ?thesis using True "2.IH"(1) r not_isSpace_comma by (simp add: unspaced_Cons)
  next
    case False
    then show ?thesis using "2.IH"(2) by (auto simp: unspaced_Cons)
  qed
qed

lemma unspaced_oneSpaceAfterCommas: "unspaced (oneSpaceAfterCommas s) = unspaced s"
  using isSpace_32 not_isSpace_comma
  by (induction s rule: oneSpaceAfterCommas.induct)
     (auto simp: unspaced_Cons unspaced_Nil unspaced_dropWhile)

lemma unspaced_trim: "unspaced (trim s) = unspaced s"
  by (simp add: trim_def unspaced_rev unspaced_dropWhile)

lemma collapsePairs_Nil: "collapsePairs s = [] \<longleftrightarrow> s = []"
  by (induction s rule: collapsePairs.induct) auto

lemma collapsePairs_hd: "s \<noteq> [] \<Longrightarrow> hd (collapsePairs s) = hd s"
  by (induction s rule: collapsePairs.induct) auto

lemma collapsePairs_no_pair:
  "\<not> includesStr s [44, 44, 44] \<Longrightarrow> \<not> hasAdjacent isComma isComma (collapsePairs s)"
proof (induction s rule: collapsePairs.induct)
  case (1 a b r)
  show ?case
  proof (cases "a = 44 \<and> b = 44")
    case True
    have r: "\<not> includesStr r [44, 44, 44]" using "1.prems" by simp
    have "\<not> (r \<noteq> [] \<and> hd r = 44)" using "1.prems" True by (cases r) auto
    then have "\<not> (collapsePairs r \<noteq> [] \<and> isComma (hd (collapsePairs r)))"
      by (metis collapsePairs_Nil collapsePairs_hd isComma_def)
    then show ?thesis using True "1.IH"(1) r by (auto simp: hasAdjacent_Cons)
  next
    case False
    have r: "\<not> includesStr (b # r) [44, 44, 44]" using "1.prems" by simp
    have "hd (collapsePairs (b # r)) = b" using collapsePairs_hd [of "b # r"] by simp
    moreover have "collapsePairs (b # r) \<noteq> []" by (simp add: collapsePairs_Nil)
    ultimately show ?thesis using False "1.IH"(2) r by (auto simp: hasAdjacent_Cons isComma_def)
  qed
qed simp_all

section \<open>The normal form of a cleaned address\<close>

lemma comma_then_other:
  assumes "\<not> hasAdjacent isComma isComma X" "X \<noteq> []" "hd X = 44" "tl X \<noteq> []"
  shows "hd (tl X) \<noteq> 44"
proof -
  obtain a b r where "X = a # b # r" using assms(2,4) by (cases X; cases "tl X") auto
  then show ?thesis using assms(1,3) by (auto simp: isComma_def)
qed

lemma other_then_comma:
  assumes "\<not> hasAdjacent isComma isComma Y" "Y \<noteq> []" "last Y = 44" "butlast Y \<noteq> []"
  shows "last (butlast Y) \<noteq> 44"
proof -
  have "\<not> hasAdjacent isComma isComma (rev Y)" using assms(1) by (simp add: hasAdjacent_rev)
  moreover have "rev Y \<noteq> []" "hd (rev Y) = 44" using assms(2,3) by (simp_all add: hd_rev)
  moreover have "tl (rev Y) = rev (butlast Y)" by (metis butlast_rev rev_swap)
  ultimately have "hd (rev (butlast Y)) \<noteq> 44" using comma_then_other [of "rev Y"] assms(4) by simp
  then show ?thesis using assms(4) by (simp add: hd_rev)
qed

lemma strip_ends:
  assumes X: "\<not> hasAdjacent isComma isComma X"
    and Y: "Y = (if X \<noteq> [] \<and> hd X = 44 then tl X else X)"
    and Z: "Z = (if Y \<noteq> [] \<and> last Y = 44 then butlast Y else Y)"
  shows "\<not> hasAdjacent isComma isComma Z \<and> (Z \<noteq> [] \<longrightarrow> hd Z \<noteq> 44 \<and> last Z \<noteq> 44)"
proof -
  have nY: "\<not> hasAdjacent isComma isComma Y" using X Y hasAdjacent_tl by auto
  have hY: "Y \<noteq> [] \<Longrightarrow> hd Y \<noteq> 44" using X Y comma_then_other [of X] by (auto split: if_splits)
  have "\<exists>q. Y = Z @ q" using Z by (metis append_Nil2 append_butlast_last_id)
  then obtain q where q: "Y = Z @ q" by blast
  then have "Y = [] @ Z @ q" by simp
  then have nZ: "\<not> hasAdjacent isComma isComma Z" using nY hasAdjacent_part by blast
  have hZ: "Z \<noteq> [] \<Longrightarrow> hd Z \<noteq> 44" using hY q by (cases Z) auto
  have lZ: "Z \<noteq> [] \<Longrightarrow> last Z \<noteq> 44" using nY Z other_then_comma [of Y] by (auto split: if_splits)
  show ?thesis using nZ hZ lZ by blast
qed

lemma unspaced_hd: "s \<noteq> [] \<Longrightarrow> \<not> isSpace (hd s) \<Longrightarrow> unspaced s \<noteq> [] \<and> hd (unspaced s) = hd s"
  by (cases s) (auto simp: unspaced_Cons)

lemma unspaced_last:
  assumes "s \<noteq> []" "\<not> isSpace (last s)"
  shows "unspaced s \<noteq> [] \<and> last (unspaced s) = last s"
proof -
  have "unspaced (rev s) \<noteq> [] \<and> hd (unspaced (rev s)) = hd (rev s)"
    using assms unspaced_hd [of "rev s"] by (simp add: hd_rev)
  then show ?thesis using assms by (simp add: unspaced_rev hd_rev)
qed

lemma cleanAddress_alt:
  "cleanAddress a =
     trim (oneSpaceAfterCommas (dropSpacesBeforeCommas (stripTrailingComma
       (stripLeadingComma (collapseCommaPairs (replaceSpaceRuns a))))))"
  by (simp add: cleanAddress_def replaceSpaceRuns_no_newline_tab)

lemma part_set: "s = p @ t @ q \<Longrightarrow> set t \<subseteq> set s" by auto

lemma cleanAddress_plain:
  assumes "c \<in> set (cleanAddress a)" "isSpace c"
  shows "c = 32"
proof -
  let ?s1 = "replaceSpaceRuns a"
  let ?s4 = "collapseCommaPairs ?s1"
  let ?s5 = "stripLeadingComma ?s4"
  let ?s6 = "stripTrailingComma ?s5"
  let ?s7 = "dropSpacesBeforeCommas ?s6"
  let ?s8 = "oneSpaceAfterCommas ?s7"
  have "c \<in> set ?s8" using assms(1) trim_part [of ?s8]
    unfolding cleanAddress_alt by (metis Un_iff set_append)
  then have "c \<in> set ?s7 \<or> c = 32" using oneSpaceAfterCommas_set by blast
  moreover have "c \<in> set ?s7 \<Longrightarrow> c \<in> set ?s6"
    using dropSpacesBeforeCommas_set [of c ?s6] assms(2) not_isSpace_comma by auto
  moreover have "set ?s6 \<subseteq> set ?s5" using stripTrailingComma_part [of ?s5] by (metis Un_iff set_append subsetI)
  moreover have "set ?s5 \<subseteq> set ?s4" using stripLeadingComma_part [of ?s4] by (metis Un_iff set_append subsetI)
  moreover have "set ?s4 \<subseteq> set ?s1" by (rule collapseCommaPairs_set)
  ultimately have "c \<in> set ?s1 \<or> c = 32" by blast
  then show ?thesis using replaceSpaceRuns_plain assms(2) by blast
qed

lemma hasAdjacent_prefix: "hasAdjacent P Q t \<Longrightarrow> s = t @ q \<Longrightarrow> hasAdjacent P Q s"
  using hasAdjacent_part [of P Q t s "[]" q] by simp

lemma hasAdjacent_suffix: "hasAdjacent P Q t \<Longrightarrow> s = p @ t \<Longrightarrow> hasAdjacent P Q s"
  using hasAdjacent_part [of P Q t s p "[]"] by simp

lemma cleanAddress_single: "\<not> hasAdjacent isSpace isSpace (cleanAddress a)"
proof -
  let ?s1 = "replaceSpaceRuns a"
  let ?s4 = "collapseCommaPairs ?s1"
  let ?s5 = "stripLeadingComma ?s4"
  let ?s6 = "stripTrailingComma ?s5"
  let ?s7 = "dropSpacesBeforeCommas ?s6"
  let ?s8 = "oneSpaceAfterCommas ?s7"
  have "\<not> hasAdjacent isSpace isSpace ?s4"
    using replaceSpaceRuns_single collapseCommaPairs_single by blast
  then have "\<not> hasAdjacent isSpace isSpace ?s5"
    using stripLeadingComma_part [of ?s4] hasAdjacent_suffix by blast
  then have "\<not> hasAdjacent isSpace isSpace ?s6"
    using stripTrailingComma_part [of ?s5] hasAdjacent_prefix by blast
  then have "\<not> hasAdjacent isSpace isSpace ?s8"
    using dropSpacesBeforeCommas_single oneSpaceAfterCommas_single by blast
  then show ?thesis
    using trim_part [of ?s8] hasAdjacent_part unfolding cleanAddress_alt by blast
qed

lemma cleanAddress_no_space_comma: "\<not> hasAdjacent isSpace isComma (cleanAddress a)"
proof -
  let ?s7 = "dropSpacesBeforeCommas (stripTrailingComma
       (stripLeadingComma (collapseCommaPairs (replaceSpaceRuns a))))"
  have "\<not> hasAdjacent isSpace isComma (oneSpaceAfterCommas ?s7)"
    using dropSpacesBeforeCommas_no_space_comma oneSpaceAfterCommas_no_space_comma by blast
  then show ?thesis
    using trim_part [of "oneSpaceAfterCommas ?s7"] hasAdjacent_part
    unfolding cleanAddress_alt by blast
qed

lemma cleanAddress_ends:
  "cleanAddress a \<noteq> [] \<Longrightarrow>
     \<not> isSpace (hd (cleanAddress a)) \<and> \<not> isSpace (last (cleanAddress a))"
  unfolding cleanAddress_alt by (rule trim_ends)

lemma cleanAddress_commas:
  assumes "\<not> includesStr (unspaced a) [44, 44, 44]"
  shows "\<not> hasAdjacent isComma isComma (unspaced (cleanAddress a)) \<and>
         (cleanAddress a \<noteq> [] \<longrightarrow> hd (cleanAddress a) \<noteq> 44 \<and> last (cleanAddress a) \<noteq> 44)"
proof -
  let ?s4 = "collapseCommaPairs (replaceSpaceRuns a)"
  let ?s5 = "stripLeadingComma ?s4"
  let ?s6 = "stripTrailingComma ?s5"
  define X where "X = unspaced ?s4"
  define Y where "Y = unspaced ?s5"
  define Z where "Z = unspaced ?s6"
  have "X = collapsePairs (unspaced a)"
    by (simp add: X_def unspaced_collapseCommaPairs unspaced_replaceSpaceRuns)
  then have nX: "\<not> hasAdjacent isComma isComma X" using assms collapsePairs_no_pair by simp
  have Y: "Y = (if X \<noteq> [] \<and> hd X = 44 then tl X else X)"
    by (simp add: Y_def X_def unspaced_stripLeadingComma commaAfterSpaces_unspaced)
  have "commaAfterSpaces (rev ?s5) \<longleftrightarrow> Y \<noteq> [] \<and> last Y = 44"
    by (auto simp: commaAfterSpaces_unspaced unspaced_rev Y_def hd_rev)
  then have Z: "Z = (if Y \<noteq> [] \<and> last Y = 44 then butlast Y else Y)"
    by (simp add: Z_def Y_def unspaced_stripTrailingComma)
  have out: "unspaced (cleanAddress a) = Z"
    by (simp add: cleanAddress_alt unspaced_trim unspaced_oneSpaceAfterCommas
        unspaced_dropSpacesBeforeCommas Z_def)
  have res: "\<not> hasAdjacent isComma isComma Z \<and> (Z \<noteq> [] \<longrightarrow> hd Z \<noteq> 44 \<and> last Z \<noteq> 44)"
    using nX Y Z by (rule strip_ends)
  have "cleanAddress a \<noteq> [] \<Longrightarrow> hd (cleanAddress a) \<noteq> 44 \<and> last (cleanAddress a) \<noteq> 44"
  proof -
    assume ne: "cleanAddress a \<noteq> []"
    then have e: "\<not> isSpace (hd (cleanAddress a))" "\<not> isSpace (last (cleanAddress a))"
      using cleanAddress_ends by blast+
    have "Z \<noteq> [] \<and> hd Z = hd (cleanAddress a)" using unspaced_hd [OF ne e(1)] out by simp
    moreover have "Z \<noteq> [] \<and> last Z = last (cleanAddress a)" using unspaced_last [OF ne e(2)] out by simp
    ultimately show ?thesis using res by auto
  qed
  then show ?thesis using res out by simp
qed

lemma unspaced_pair:
  assumes "includesStr s [44, 44]"
  shows "hasAdjacent isComma isComma (unspaced s)"
proof -
  obtain p q where "s = p @ [44, 44] @ q" using assms includesStr_iff by blast
  then have "unspaced s = unspaced p @ 44 # 44 # unspaced q"
    using not_isSpace_comma by (simp add: unspaced_append unspaced_Cons)
  then show ?thesis unfolding hasAdjacent_iff isComma_def by blast
qed

text \<open>
  C4, as \<open>cleanAddress\<close> has it. For every raw address the result has no whitespace but
  single plain spaces (no newline, no tab, no two whitespace code units in a row), no
  whitespace before a comma, and no whitespace at either end; so a comma is followed by
  at most one space. If the address has no three commas in a row, whitespace aside, the
  result has no two commas in a row, whitespace aside, and neither starts nor ends with
  a comma. The two addresses of the claim are cleaned as it says.
\<close>

theorem cleanAddress_normal_form:
  "(\<forall>c \<in> set (cleanAddress a). isSpace c \<longrightarrow> c = 32) \<and>
   \<not> hasAdjacent isSpace isSpace (cleanAddress a) \<and>
   \<not> hasAdjacent isSpace isComma (cleanAddress a) \<and>
   (cleanAddress a \<noteq> [] \<longrightarrow>
      \<not> isSpace (hd (cleanAddress a)) \<and> \<not> isSpace (last (cleanAddress a))) \<and>
   (\<not> includesStr (unspaced a) (js '',,,'') \<longrightarrow>
      \<not> hasAdjacent isComma isComma (unspaced (cleanAddress a)) \<and>
      (cleanAddress a \<noteq> [] \<longrightarrow> hd (cleanAddress a) \<noteq> 44 \<and> last (cleanAddress a) \<noteq> 44)) \<and>
   cleanAddress (js ''Calle   el   Palmar   181'') = js ''Calle el Palmar 181'' \<and>
   cleanAddress (js '', Calle 123 ,'') = js ''Calle 123''"
proof -
  have t: "js '',,,'' = [44, 44, 44]" by (simp add: js_def)
  have e1: "cleanAddress (js ''Calle   el   Palmar   181'') = js ''Calle el Palmar 181''"
    by (simp add: cleanAddress_def js_def isSpace_def removeUnit_def commaAfterSpaces_def
        stripLeadingComma_def stripTrailingComma_def trim_def)
  have e2: "cleanAddress (js '', Calle 123 ,'') = js ''Calle 123''"
    by (simp add: cleanAddress_def js_def isSpace_def removeUnit_def commaAfterSpaces_def
        stripLeadingComma_def stripTrailingComma_def trim_def)
  show ?thesis
    using cleanAddress_plain [of _ a] cleanAddress_single [of a]
      cleanAddress_no_space_comma [of a] cleanAddress_ends [of a] cleanAddress_commas [of a] e1 e2
    unfolding t by blast
qed

text \<open>The address of the unit test on commas, with its two commas apart.\<close>

theorem cleanAddress_normal_form_witness:
  "cleanAddress (js ''Urb Pando  ,  ,  Lima'') = js ''Urb Pando, Lima'' \<and>
   \<not> includesStr (unspaced (js ''Urb Pando  ,  ,  Lima'')) (js '',,,'') \<and>
   \<not> hasAdjacent isComma isComma (unspaced (js ''Urb Pando, Lima'')) \<and>
   \<not> hasAdjacent isSpace isSpace (js ''Urb Pando, Lima'') \<and>
   \<not> hasAdjacent isSpace isComma (js ''Urb Pando, Lima'') \<and>
   hd (js ''Urb Pando, Lima'') \<noteq> 44 \<and> last (js ''Urb Pando, Lima'') \<noteq> 44"
proof -
  have e: "cleanAddress (js ''Urb Pando  ,  ,  Lima'') = js ''Urb Pando, Lima''"
    by (simp add: cleanAddress_def js_def isSpace_def removeUnit_def commaAfterSpaces_def
        stripLeadingComma_def stripTrailingComma_def trim_def)
  have h: "\<not> includesStr (unspaced (js ''Urb Pando  ,  ,  Lima'')) (js '',,,'')"
    by (simp add: unspaced_def js_def isSpace_def)
  have n: "js ''Urb Pando, Lima'' \<noteq> []" by (simp add: js_def)
  show ?thesis
    using cleanAddress_normal_form [of "js ''Urb Pando  ,  ,  Lima''"] h n
    unfolding e by simp
qed

text \<open>
  No pass inserts a space: a comma that has no whitespace after it keeps none.
\<close>

theorem cleanAddress_comma_without_space:
  "cleanAddress (js ''a,b'') = js ''a,b'' \<and> \<not> includesStr (cleanAddress (js ''a,b'')) (js '', '')"
  by (simp add: cleanAddress_def js_def isSpace_def removeUnit_def commaAfterSpaces_def
        stripLeadingComma_def stripTrailingComma_def trim_def)

text \<open>
  Of three commas in a row the scan collapses the first two and resumes after them, so
  two are left, and one of them survives at the end of the string.
\<close>

lemma cleanAddress_three_commas:
  "cleanAddress (js ''a,,,b'') = js ''a,,b'' \<and> cleanAddress (js ''a,,,'') = js ''a,''"
  by (simp add: cleanAddress_def js_def isSpace_def removeUnit_def commaAfterSpaces_def
        stripLeadingComma_def stripTrailingComma_def trim_def)

section \<open>Synthesized phone numbers\<close>

lemma digitsOf_digits: "c \<in> set (digitsOf n) \<Longrightarrow> isDigit c"
proof (induction n rule: digitsOf.induct)
  case (1 n)
  show ?case
  proof (cases "n < 10")
    case True
    then show ?thesis using "1.prems" by (subst (asm) digitsOf.simps) (auto simp: isDigit_def)
  next
    case False
    have "n mod 10 < 10" by simp
    then show ?thesis using False "1.prems" "1.IH"
      by (subst (asm) digitsOf.simps) (auto simp: isDigit_def)
  qed
qed

lemma digitsOf_length: "10 ^ k \<le> n \<Longrightarrow> n < 10 ^ Suc k \<Longrightarrow> length (digitsOf n) = Suc k"
proof (induction k arbitrary: n)
  case 0
  then show ?case by (subst digitsOf.simps) simp
next
  case (Suc k)
  have "10 ^ k \<le> n div 10" using Suc.prems(1) by (simp add: less_eq_div_iff_mult_less_eq mult.commute)
  moreover have "n div 10 < 10 ^ Suc k" using Suc.prems(2) by (simp add: div_less_iff_less_mult mult.commute)
  ultimately have "length (digitsOf (n div 10)) = Suc k" using Suc.IH by blast
  moreover have "\<not> n < 10" using Suc.prems(1) by (metis One_nat_def le_trans not_less one_le_numeral power_increasing power_one_right zero_less_Suc Suc_leI)
  ultimately show ?case by (subst digitsOf.simps) simp
qed

lemma phone_digits:
  assumes "0 \<le> r" "r < 1"
  shows "length (57 # numToString \<lfloor>r * 90000000 + 10000000\<rfloor>) = 9 \<and>
         (\<forall>c \<in> set (57 # numToString \<lfloor>r * 90000000 + 10000000\<rfloor>). isDigit c)"
proof -
  define k where "k = \<lfloor>r * 90000000 + 10000000\<rfloor>"
  have lo: "10000000 \<le> k" unfolding k_def using assms(1) by (simp add: le_floor_iff)
  have hi: "k < 100000000" unfolding k_def using assms(2) by (simp add: floor_less_iff)
  have "10 ^ 7 \<le> nat k" "nat k < 10 ^ Suc 7" using lo hi by auto
  then have "length (digitsOf (nat k)) = Suc 7" by (rule digitsOf_length)
  moreover have "numToString k = digitsOf (nat k)" using lo by (simp add: numToString_def)
  ultimately show ?thesis using digitsOf_digits unfolding k_def [symmetric] by (auto simp: isDigit_def)
qed

text \<open>
  C9. For every draw in \<open>[0, 1)\<close> the synthesized phone number, of either crawl, has
  exactly nine code units, the first is the digit 9 (code unit 57) and the other eight
  are decimal digits.
\<close>

theorem generatePhone_pattern:
  "0 \<le> r \<and> r < 1 \<longrightarrow>
     length (generatePhone r) = 9 \<and> hd (generatePhone r) = 57 \<and>
     (\<forall>c \<in> set (tl (generatePhone r)). isDigit c) \<and>
     length (generatePhoneNumber r) = 9 \<and> hd (generatePhoneNumber r) = 57 \<and>
     (\<forall>c \<in> set (tl (generatePhoneNumber r)). isDigit c)"
  using phone_digits [of r] by (simp add: generatePhone_def generatePhoneNumber_def)

text \<open>The draw \<open>1/2\<close> gives the number 955000000.\<close>

theorem generatePhone_pattern_witness:
  "(0::real) \<le> 1 / 2 \<and> (1 / 2 :: real) < 1 \<and> generatePhone (1 / 2) = js ''955000000'' \<and>
   length (js ''955000000'') = 9 \<and> hd (js ''955000000'') = 57"
proof -
  have "generatePhone (1 / 2) = js ''955000000''"
    by (simp add: generatePhone_def numToString_def js_def digitsOf.simps)
  then show ?thesis using generatePhone_pattern [of "1 / 2"] by (simp add: js_def)
qed

section \<open>Synthesized treatments\<close>

lemma firstMatch_none:
  "(\<forall>key \<in> set (map fst entries). \<not> includesStr normalized key) \<Longrightarrow>
     firstMatch normalized entries = [js ''Consulta general'']"
  by (induction entries) auto

lemma mockTreatment_fields:
  assumes "unitDraws rnd"
  shows "(\<exists>p. price (mockTreatment rnd i n) = Some p \<and> 50 \<le> p \<and> p \<le> 250) \<and>
         currency (mockTreatment rnd i n) = Some (js ''PEN'') \<and>
         durationMinutes (mockTreatment rnd i n) \<in> {Some 30, Some 45, Some 60} \<and>
         name (mockTreatment rnd i n) = n"
proof -
  define a where "a = rnd (2 * i)"
  define b where "b = rnd (2 * i + 1)"
  have a: "0 \<le> a" "a < 1" and b: "0 \<le> b" "b < 1"
    using assms unfolding unitDraws_def a_def b_def by auto
  have "50 \<le> mathRound (a * 200 + 50)" unfolding mathRound_def using a by (simp add: le_floor_iff)
  moreover have "mathRound (a * 200 + 50) \<le> 250"
    unfolding mathRound_def using a by (simp add: floor_le_iff)
  moreover have "arrayAt [30, 45, 60] \<lfloor>b * 3\<rfloor> \<in> {Some 30, Some 45, Some (60::int)}"
  proof -
    have "0 \<le> \<lfloor>b * 3\<rfloor>" using b by simp
    moreover have "\<lfloor>b * 3\<rfloor> < 3" using b by (simp add: floor_less_iff)
    ultimately consider "\<lfloor>b * 3\<rfloor> = 0" | "\<lfloor>b * 3\<rfloor> = 1" | "\<lfloor>b * 3\<rfloor> = 2" by linarith
    then show ?thesis by cases (simp_all add: arrayAt_def)
  qed
  ultimately show ?thesis
    unfolding mockTreatment_def a_def [symmetric] b_def [symmetric] by simp
qed

lemma mockTreatments_names:
  "map name (map (\<lambda>(i, n). mockTreatment rnd i n) (enumerate k names)) = names"
  by (induction names arbitrary: k) (auto simp: mockTreatment_def)

lemma mockTreatments_member:
  "t \<in> set (map (\<lambda>(i, n). mockTreatment rnd i n) (enumerate k names)) \<Longrightarrow>
     \<exists>i n. t = mockTreatment rnd i n"
  by auto

text \<open>
  C8. For every specialty of code units up to U+00FF whose lower-cased form includes no
  key of the table, of either crawl, the synthesized treatments are exactly one, with the
  name of the general consultation. For every specialty and all draws in \<open>[0, 1)\<close>, every
  synthesized treatment has a price between 50 and 250, the currency \<open>PEN\<close> and a
  duration of 30, 45 or 60 minutes.
\<close>

theorem generateMockTreatments_fallback_and_ranges:
  "(latin1 s \<and> (\<forall>key \<in> set (map fst mapping_city). \<not> includesStr (toLowerCase s) key) \<longrightarrow>
      map name (generateMockTreatments_city rnd s) = [js ''Consulta general'']) \<and>
   (latin1 s \<and>
    (\<forall>key \<in> set (map fst treatmentsBySpecialty). \<not> includesStr (toLowerCase s) key) \<longrightarrow>
      map name (generateMockTreatments_specialty rnd s) = [js ''Consulta general'']) \<and>
   (unitDraws rnd \<longrightarrow>
      (\<forall>t \<in> set (generateMockTreatments_city rnd s) \<union> set (generateMockTreatments_specialty rnd s).
         (\<exists>p. price t = Some p \<and> 50 \<le> p \<and> p \<le> 250) \<and>
         currency t = Some (js ''PEN'') \<and>
         durationMinutes t \<in> {Some 30, Some 45, Some 60}))"
proof -
  have a: "map name (generateMockTreatments_city rnd s) = [js ''Consulta general'']"
    if "\<forall>key \<in> set (map fst mapping_city). \<not> includesStr (toLowerCase s) key"
    unfolding generateMockTreatments_city_def Let_def mockTreatments_names
    using that by (rule firstMatch_none)
  have b: "map name (generateMockTreatments_specialty rnd s) = [js ''Consulta general'']"
    if "\<forall>key \<in> set (map fst treatmentsBySpecialty). \<not> includesStr (toLowerCase s) key"
    unfolding generateMockTreatments_specialty_def Let_def mockTreatments_names
    using that by (rule firstMatch_none)
  have c: "(\<exists>p. price t = Some p \<and> 50 \<le> p \<and> p \<le> 250) \<and>
         currency t = Some (js ''PEN'') \<and>
         durationMinutes t \<in> {Some 30, Some 45, Some 60}"
    if u: "unitDraws rnd"
      and t: "t \<in> set (generateMockTreatments_city rnd s)
                \<union> set (generateMockTreatments_specialty rnd s)" for t
  proof -
    obtain i n where "t = mockTreatment rnd i n"
      using t mockTreatments_member
      unfolding generateMockTreatments_city_def generateMockTreatments_specialty_def Let_def
      by blast
    then show ?thesis using mockTreatment_fields [OF u, of i n] by simp
  qed
  show ?thesis using a b c by blast
qed

text \<open>A urologist, with every draw \<open>1/2\<close>: one general consultation of 150 PEN and 45 minutes.\<close>

theorem generateMockTreatments_fallback_and_ranges_witness:
  "unitDraws (\<lambda>i. 1 / 2) \<and> latin1 (js ''Urologo'') \<and>
   generateMockTreatments_city (\<lambda>i. 1 / 2) (js ''Urologo'') =
     [\<lparr>name = js ''Consulta general'', price = Some 150, currency = Some (js ''PEN''),
       durationMinutes = Some 45\<rparr>] \<and>
   generateMockTreatments_specialty (\<lambda>i. 1 / 2) (js ''Urologo'') =
     [\<lparr>name = js ''Consulta general'', price = Some 150, currency = Some (js ''PEN''),
       durationMinutes = Some 45\<rparr>]"
proof -
  have l: "toLowerCase (js ''Urologo'') = js ''urologo''"
    by (simp add: toLowerCase_def lowerUnit_def js_def)
  have a: "\<forall>key \<in> set (map fst mapping_city). \<not> includesStr (toLowerCase (js ''Urologo'')) key"
    unfolding l by (simp add: mapping_city_def js_def)
  have b: "\<forall>key \<in> set (map fst treatmentsBySpecialty). \<not> includesStr (toLowerCase (js ''Urologo'')) key"
    unfolding l by (simp add: treatmentsBySpecialty_def js_def)
  have u: "unitDraws (\<lambda>i. 1 / 2)" by (simp add: unitDraws_def)
  have n: "latin1 (js ''Urologo'')" by (simp add: latin1_def js_def)
  have m: "mockTreatment (\<lambda>i. 1 / 2) 0 (js ''Consulta general'') =
     \<lparr>name = js ''Consulta general'', price = Some 150, currency = Some (js ''PEN''),
       durationMinutes = Some 45\<rparr>"
    by (simp add: mockTreatment_def mathRound_def arrayAt_def)
  have c: "generateMockTreatments_city (\<lambda>i. 1 / 2) (js ''Urologo'') = [mockTreatment (\<lambda>i. 1 / 2) 0 (js ''Consulta general'')]"
    using firstMatch_none [OF a] by (simp add: generateMockTreatments_city_def)
  have d: "generateMockTreatments_specialty (\<lambda>i. 1 / 2) (js ''Urologo'') = [mockTreatment (\<lambda>i. 1 / 2) 0 (js ''Consulta general'')]"
    using firstMatch_none [OF b] by (simp add: generateMockTreatments_specialty_def)
  show ?thesis
    using generateMockTreatments_fallback_and_ranges [of "js ''Urologo''" "\<lambda>i. 1 / 2"] a b u n
    unfolding c d m by simp
qed

section \<open>Availability slots\<close>

lemma day_start_bounds:
  fixes x :: int
  shows "(x div msPerDay) * msPerDay \<le> x \<and> x - msPerDay < (x div msPerDay) * msPerDay"
proof -
  have "x = (x div msPerDay) * msPerDay + x mod msPerDay" by simp
  moreover have "0 \<le> x mod msPerDay" "x mod msPerDay < msPerDay" by (simp_all add: msPerDay_def)
  ultimately show ?thesis by linarith
qed

lemma mockDay_slots:
  assumes t: "0 \<le> t" "t + 16 * msPerDay \<le> maxTime" and tz: "\<bar>tz\<bar> \<le> msPerDay"
    and day: "1 \<le> day" "day \<le> 14"
    and s: "s \<in> set (mockDay tz (Some t) isOnline day)"
  shows "\<exists>x. startAt s = Some x \<and> endAt s = Some (x + 4 * msPerHour)"
proof -
  define t' where "t' = t + day * msPerDay"
  define base where "base = ((t' + tz) div msPerDay) * msPerDay - tz"
  have D: "0 < msPerDay" by (simp add: msPerDay_def)
  have dayD: "msPerDay \<le> day * msPerDay" "day * msPerDay \<le> 14 * msPerDay"
    using day unfolding msPerDay_def by linarith+
  have t'lo: "msPerDay \<le> t'" using t(1) dayD unfolding t'_def by linarith
  have t'hi: "t' + 2 * msPerDay \<le> maxTime" using t(2) dayD unfolding t'_def by linarith
  have M: "0 < maxTime" by (simp add: maxTime_def)
  have d: "addDays (Some t) day = Some t'"
    using t'lo t'hi D M by (simp add: addDays_def timeClip_def t'_def [symmetric])
  have b: "t' - msPerDay < base" "base \<le> t'"
    using day_start_bounds [of "t' + tz"] unfolding base_def by linarith+
  have H: "msPerDay = 24 * msPerHour" "0 < msPerHour" by (simp_all add: msPerDay_def msPerHour_def)
  have clip: "timeClip (base + h * msPerHour) = Some (base + h * msPerHour)"
    if "0 \<le> h" "h \<le> 24" for h
  proof -
    have "0 \<le> h * msPerHour" using that unfolding msPerHour_def by linarith
    moreover have "h * msPerHour \<le> msPerDay"
      using that unfolding msPerHour_def msPerDay_def by linarith
    ultimately have "\<bar>base + h * msPerHour\<bar> \<le> maxTime" using b t'lo t'hi D by linarith
    then show ?thesis by (simp add: timeClip_def)
  qed
  have sh: "setHoursSharp tz (Some t') h = Some (base + h * msPerHour)" if "0 \<le> h" "h \<le> 24" for h
  proof -
    have e: "((t' + tz) div msPerDay) * msPerDay + h * msPerHour - tz = base + h * msPerHour"
      unfolding base_def by simp
    have "setHoursSharp tz (Some t') h
            = timeClip (((t' + tz) div msPerDay) * msPerDay + h * msPerHour - tz)"
      by (simp add: setHoursSharp_def)
    then show ?thesis unfolding e using clip [OF that] by simp
  qed
  have "s = \<lparr>startAt = Some (base + 9 * msPerHour), endAt = Some (base + 13 * msPerHour),
              modality = (if isOnline then online else in_person)\<rparr>
      \<or> s = \<lparr>startAt = Some (base + 15 * msPerHour), endAt = Some (base + 19 * msPerHour),
              modality = (if isOnline then online else in_person)\<rparr>"
    using s unfolding mockDay_def d Let_def
    by (auto simp: sh split: if_splits)
  then show ?thesis by auto
qed

lemma generateMockAvailability_slots:
  assumes "0 \<le> t" "t + 16 * msPerDay \<le> maxTime" "\<bar>tz\<bar> \<le> msPerDay"
    and "s \<in> set (generateMockAvailability tz (Some t) isOnline)"
  shows "\<exists>x. startAt s = Some x \<and> endAt s = Some (x + 4 * msPerHour)"
proof -
  obtain day where "1 \<le> day" "day \<le> 14" "s \<in> set (mockDay tz (Some t) isOnline day)"
    using assms(4) unfolding generateMockAvailability_def by auto
  then show ?thesis using mockDay_slots assms(1-3) by blast
qed

lemma setHours_next:
  assumes "- maxTime \<le> u" "u + msPerHour \<le> maxTime"
  shows "setHours tz (Some u) (map_option (\<lambda>h. h + 1) (getHours tz (Some u))) = Some (u + msPerHour)"
proof -
  define x where "x = u + tz"
  have H: "msPerDay = 24 * msPerHour" "0 < msPerHour" by (simp_all add: msPerDay_def msPerHour_def)
  define q where "q = (x div msPerDay) * msPerDay"
  define r where "r = x mod msPerDay"
  define q2 where "q2 = (r div msPerHour) * msPerHour"
  have 1: "r = q2 + r mod msPerHour" unfolding q2_def by simp
  have "msPerHour dvd msPerDay" unfolding H(1) by simp
  then have 2: "r mod msPerHour = x mod msPerHour"
    unfolding r_def by (rule mod_mod_cancel)
  have 3: "x = q + r" unfolding q_def r_def by simp
  have 4: "(r div msPerHour + 1) * msPerHour = q2 + msPerHour"
    unfolding q2_def by (simp add: algebra_simps)
  have "q + (r div msPerHour + 1) * msPerHour + x mod msPerHour - tz = u + msPerHour"
    unfolding 4 using 1 2 3 x_def by linarith
  then have "(x div msPerDay) * msPerDay + ((x mod msPerDay) div msPerHour + 1) * msPerHour
          + x mod msPerHour - tz = u + msPerHour"
    unfolding q_def r_def .
  moreover have "\<bar>u + msPerHour\<bar> \<le> maxTime" using assms H by linarith
  ultimately have "timeClip ((x div msPerDay) * msPerDay
        + ((x mod msPerDay) div msPerHour + 1) * msPerHour + x mod msPerHour - tz)
      = Some (u + msPerHour)"
    by (simp add: timeClip_def)
  then show ?thesis
    unfolding x_def by (simp add: setHours_def getHours_def)
qed

lemma fetchAvailability_slots:
  assumes "s \<in> set (fetchAvailability tz response)"
  shows "\<exists>sl. s = slotAvailability tz sl"
  using assms by (auto simp: fetchAvailability_def split: sum.splits if_splits)

lemma dateGreater_Some: "dateGreater (Some a) (Some b) \<longleftrightarrow> b < a"
  by (simp add: dateGreater_def)

text \<open>
  C7, as the code has it. Synthesized slots: when \<open>new Date()\<close> is not before the epoch
  and at least 16 days before the end of the range of dates, and the zone's offset is at
  most a day, every slot of \<open>generateMockAvailability\<close>, of either crawl, ends four hours
  after its start. Slots of the endpoint: every slot of \<open>fetchAvailability\<close> whose start
  is a valid date, at least an hour before the end of the range, ends one hour after its
  start. In both cases the end is strictly greater than the start. The availability of a
  record of \<open>scrapeDoctorProfile\<close> is one or the other.
\<close>

theorem availability_end_after_start:
  "(0 \<le> t \<and> t + 16 * msPerDay \<le> maxTime \<and> \<bar>tz\<bar> \<le> msPerDay \<longrightarrow>
      (\<forall>s \<in> set (generateMockAvailability tz (Some t) isOnline)
                \<union> set (generateMockAvailability_specialty tz (Some t)).
         (\<exists>x. startAt s = Some x \<and> endAt s = Some (x + 4 * msPerHour)) \<and>
         dateGreater (endAt s) (startAt s))) \<and>
   (\<forall>s \<in> set (fetchAvailability tz response).
      \<forall>u. startAt s = Some u \<and> - maxTime \<le> u \<and> u + msPerHour \<le> maxTime \<longrightarrow>
        endAt s = Some (u + msPerHour) \<and> dateGreater (endAt s) (startAt s)) \<and>
   ((\<exists>k b. availability (fst (profileRecord w cfg n result doc))
             = generateMockAvailability (tzOffset w) (timeClip (clock w k)) b) \<or>
    (\<exists>k. availability (fst (profileRecord w cfg n result doc))
           = fetchAvailability (tzOffset w)
               (slotsEndpoint w k (result_doctorId result) (result_addressId result))))"
proof -
  have H: "0 < msPerHour" by (simp add: msPerHour_def)
  have a: "(\<exists>x. startAt s = Some x \<and> endAt s = Some (x + 4 * msPerHour)) \<and>
         dateGreater (endAt s) (startAt s)"
    if h: "0 \<le> t \<and> t + 16 * msPerDay \<le> maxTime \<and> \<bar>tz\<bar> \<le> msPerDay"
      and m: "s \<in> set (generateMockAvailability tz (Some t) isOnline)
                \<union> set (generateMockAvailability_specialty tz (Some t))" for s
  proof -
    have "s \<in> set (generateMockAvailability tz (Some t) isOnline)
            \<or> s \<in> set (generateMockAvailability tz (Some t) False)"
      using m by (simp add: generateMockAvailability_def generateMockAvailability_specialty_def)
    then obtain x where "startAt s = Some x" "endAt s = Some (x + 4 * msPerHour)"
      using generateMockAvailability_slots [of t tz s] h by blast
    then show ?thesis using H by (simp add: dateGreater_Some)
  qed
  have b: "endAt s = Some (u + msPerHour) \<and> dateGreater (endAt s) (startAt s)"
    if m: "s \<in> set (fetchAvailability tz response)"
      and h: "startAt s = Some u \<and> - maxTime \<le> u \<and> u + msPerHour \<le> maxTime" for s u
  proof -
    obtain sl where sl: "s = slotAvailability tz sl" using m fetchAvailability_slots by blast
    then have "start sl = Some u" using h by (simp add: slotAvailability_def Let_def)
    then have "endAt s = Some (u + msPerHour)"
      using sl h setHours_next [of u tz] by (simp add: slotAvailability_def Let_def)
    then show ?thesis using h H by (simp add: dateGreater_Some)
  qed
  have c: "(\<exists>k b. availability (fst (profileRecord w cfg n result doc))
             = generateMockAvailability (tzOffset w) (timeClip (clock w k)) b) \<or>
    (\<exists>k. availability (fst (profileRecord w cfg n result doc))
           = fetchAvailability (tzOffset w)
               (slotsEndpoint w k (result_doctorId result) (result_addressId result)))"
    unfolding profileRecord_def Let_def split_def by (simp split: if_splits) blast
  show ?thesis using a b c by blast
qed

text \<open>
  With \<open>new Date()\<close> at the epoch and the zone of Lima (five hours behind UTC), the first
  synthesized morning is 9:00 to 13:00 local time of 1 January 1970; a free slot of the
  endpoint at that 9:00 ends at 10:00.
\<close>

theorem availability_end_after_start_witness:
  "\<lparr>startAt = Some 50400000, endAt = Some 64800000, modality = in_person\<rparr>
     \<in> set (generateMockAvailability (- 18000000) (Some 0) False) \<and>
   dateGreater (Some 64800000) (Some 50400000) \<and>
   fetchAvailability (- 18000000)
     (Inr [Some \<lparr>booked = False, booking_url = Some (js ''/booking''), start = Some 50400000\<rparr>]) =
     [\<lparr>startAt = Some 50400000, endAt = Some 54000000, modality = in_person\<rparr>] \<and>
   dateGreater (Some 54000000) (Some 50400000)"
proof -
  let ?m = "\<lparr>startAt = Some 50400000, endAt = Some 64800000, modality = in_person\<rparr>"
  let ?f = "\<lparr>startAt = Some 50400000, endAt = Some 54000000, modality = in_person\<rparr>"
  have "?m \<in> set (mockDay (- 18000000) (Some 0) False 1)"
    by (simp add: mockDay_def addDays_def timeClip_def getDay_def setHoursSharp_def
        msPerDay_def msPerHour_def maxTime_def)
  then have m: "?m \<in> set (generateMockAvailability (- 18000000) (Some 0) False)"
    unfolding generateMockAvailability_def by (auto intro!: bexI [of _ 1])
  have f: "fetchAvailability (- 18000000)
     (Inr [Some \<lparr>booked = False, booking_url = Some (js ''/booking''), start = Some 50400000\<rparr>]) = [?f]"
    by (simp add: fetchAvailability_def acceptedSlot_def slotAvailability_def js_def
        setHours_def getHours_def timeClip_def msPerDay_def msPerHour_def maxTime_def)
  have h: "(0::int) \<le> 0 \<and> 0 + 16 * msPerDay \<le> maxTime \<and> \<bar>- 18000000\<bar> \<le> msPerDay"
    by (simp add: msPerDay_def maxTime_def)
  have r: "- maxTime \<le> 50400000 \<and> 50400000 + msPerHour \<le> maxTime"
    by (simp add: msPerHour_def maxTime_def)
  show ?thesis
    using availability_end_after_start [of 0 "- 18000000" False
        "Inr [Some \<lparr>booked = False, booking_url = Some (js ''/booking''), start = Some 50400000\<rparr>]"]
      m h r
    unfolding f by (auto simp: msPerHour_def dateGreater_Some)
qed

text \<open>
  A free slot of the endpoint whose start does not parse is accepted with both dates
  invalid: its end is not greater than its start.
\<close>

theorem fetchAvailability_invalid_start:
  "fetchAvailability (- 18000000)
     (Inr [Some \<lparr>booked = False, booking_url = Some (js ''/booking''), start = None\<rparr>]) =
     [\<lparr>startAt = None, endAt = None, modality = in_person\<rparr>] \<and>
   \<not> dateGreater None None"
  by (simp add: fetchAvailability_def acceptedSlot_def slotAvailability_def js_def
      setHours_def getHours_def dateGreater_def)

section \<open>Appointments inside availability blocks\<close>

lemma arrayAt_member: "arrayAt xs k = Some x \<Longrightarrow> x \<in> set xs"
  by (auto simp: arrayAt_def split: if_splits)











section \<open>Deduplication of the accepted records\<close>

lemma freshUrls_Nil: "freshUrls S [] S"
  by (simp add: freshUrls_def)

lemma freshUrls_Cons:
  "profileUrl d \<notin> S \<Longrightarrow> freshUrls (insert (profileUrl d) S) ds S' \<Longrightarrow> freshUrls S (d # ds) S'"
  by (auto simp: freshUrls_def)

lemma freshUrls_append:
  "freshUrls S ds S1 \<Longrightarrow> freshUrls S1 es S2 \<Longrightarrow> freshUrls S (ds @ es) S2"
  by (auto simp: freshUrls_def)

lemma profileRecord_url: "profileUrl (fst (profileRecord w cfg n result doc)) = result_doctorUrl result"
  by (simp add: profileRecord_def Let_def split_def)

lemma scrapeDoctorProfile_url:
  "scrapeDoctorProfile w cfg n result = (Some d, n1) \<Longrightarrow> profileUrl d = result_doctorUrl result"
  using profileRecord_url [of w cfg "n + 1" result]
  by (auto simp: scrapeDoctorProfile_def Let_def split_def split: sum.splits)

lemma processResults_fresh:
  "processResults w cfg results processed S n = (ds, S', n') \<Longrightarrow> freshUrls S ds S'"
proof (induction results arbitrary: processed S n ds S' n')
  case Nil
  then show ?case by (simp add: freshUrls_Nil)
next
  case (Cons r rs)
  show ?case
  proof (cases "capReached (maxDoctorsPerCity cfg) processed")
    case True
    then show ?thesis using Cons.prems by (simp add: freshUrls_Nil)
  next
    case nc: False
    show ?thesis
    proof (cases "result_doctorUrl r \<in> S")
      case True
      then show ?thesis using Cons.prems nc Cons.IH by simp
    next
      case fresh: False
      obtain od n1 where p: "scrapeDoctorProfile w cfg n r = (od, n1)"
        by (cases "scrapeDoctorProfile w cfg n r")
      show ?thesis
      proof (cases od)
        case None
        then show ?thesis using Cons.prems nc fresh p Cons.IH by simp
      next
        case (Some d)
        show ?thesis
        proof (cases "isValidDoctor_city d")
          case False
          then show ?thesis using Cons.prems nc fresh p Some Cons.IH by simp
        next
          case True
          obtain rest urls n2 where rec:
            "processResults w cfg rs (Suc processed) (insert (result_doctorUrl r) S) n1 = (rest, urls, n2)"
            by (cases "processResults w cfg rs (Suc processed) (insert (result_doctorUrl r) S) n1") auto
          have u: "profileUrl d = result_doctorUrl r" using p Some scrapeDoctorProfile_url by simp
          have "freshUrls (insert (profileUrl d) S) rest urls" using Cons.IH rec u by simp
          then have "freshUrls S (d # rest) urls" using fresh u freshUrls_Cons by simp
          moreover have "ds = d # rest \<and> S' = urls"
            using Cons.prems nc fresh p Some True rec by simp
          ultimately show ?thesis by simp
        qed
      qed
    qed
  qed
qed

lemma scrapeDoctorsByCity_fresh:
  "scrapeDoctorsByCity w cfg c S n = (ds, S', n') \<Longrightarrow> freshUrls S ds S'"
  using processResults_fresh by (auto simp: scrapeDoctorsByCity_def Let_def split: prod.splits)

lemma scrapeCities_fresh:
  "scrapeCities w cfg cs S n = (ds, S', n') \<Longrightarrow> freshUrls S ds S'"
proof (induction cs arbitrary: S n ds S' n')
  case Nil
  then show ?case by (simp add: freshUrls_Nil)
next
  case (Cons c cs)
  obtain d1 S1 n1 where a: "scrapeDoctorsByCity w cfg (trim c) S n = (d1, S1, n1)"
    by (cases "scrapeDoctorsByCity w cfg (trim c) S n") auto
  obtain d2 S2 n2 where b: "scrapeCities w cfg cs S1 n1 = (d2, S2, n2)"
    by (cases "scrapeCities w cfg cs S1 n1") auto
  have "ds = d1 @ d2 \<and> S' = S2" using Cons.prems a b by simp
  then show ?case
    using scrapeDoctorsByCity_fresh [OF a] Cons.IH [OF b] freshUrls_append by blast
qed

lemma parseStandardCards_fresh:
  "parseStandardCards cfg cards parsed S = (ds, S') \<Longrightarrow> freshUrls S ds S'"
proof (induction cards arbitrary: parsed S ds S')
  case Nil
  then show ?case by (simp add: freshUrls_Nil)
next
  case (Cons c cs)
  show ?case
  proof (cases "belowCap (maxDoctorsPerSpecialty cfg) parsed")
    case False
    then show ?thesis using Cons.prems by (simp add: freshUrls_Nil)
  next
    case bc: True
    show ?thesis
    proof (cases c)
      case None
      then show ?thesis using Cons.prems bc Cons.IH by simp
    next
      case (Some d)
      show ?thesis
      proof (cases "profileUrl d \<notin> S \<and> isValidDoctor_specialty d")
        case False
        then show ?thesis using Cons.prems bc Some Cons.IH by auto
      next
        case True
        obtain rest urls where rec:
          "parseStandardCards cfg cs (Suc parsed) (insert (profileUrl d) S) = (rest, urls)"
          by (cases "parseStandardCards cfg cs (Suc parsed) (insert (profileUrl d) S)") auto
        have "freshUrls (insert (profileUrl d) S) rest urls" using Cons.IH rec by simp
        then have "freshUrls S (d # rest) urls" using True freshUrls_Cons by simp
        moreover have "ds = d # rest \<and> S' = urls" using Cons.prems bc Some True rec by simp
        ultimately show ?thesis by simp
      qed
    qed
  qed
qed

lemma scrapeDoctorsFromHomepage_fresh:
  "scrapeDoctorsFromHomepage w cfg S n = (ds, S', n') \<Longrightarrow> freshUrls S ds S'"
  using parseStandardCards_fresh
  by (auto simp: scrapeDoctorsFromHomepage_def freshUrls_Nil split: sum.splits prod.splits)

lemma scrapeDoctorsBySpecialtyAndCity_fresh:
  "scrapeDoctorsBySpecialtyAndCity w cfg s c S n = (ds, S', n') \<Longrightarrow> freshUrls S ds S'"
  using parseStandardCards_fresh scrapeDoctorsFromHomepage_fresh
  by (auto simp: scrapeDoctorsBySpecialtyAndCity_def freshUrls_Nil
      split: sum.splits prod.splits if_splits)

lemma scrapeCitiesOf_fresh:
  "scrapeCitiesOf w cfg s cs S n = (ds, S', n') \<Longrightarrow> freshUrls S ds S'"
proof (induction cs arbitrary: S n ds S' n')
  case Nil
  then show ?case by (simp add: freshUrls_Nil)
next
  case (Cons c cs)
  obtain d1 S1 n1 where a: "scrapeDoctorsBySpecialtyAndCity w cfg (trim s) (trim c) S n = (d1, S1, n1)"
    by (cases "scrapeDoctorsBySpecialtyAndCity w cfg (trim s) (trim c) S n") auto
  obtain d2 S2 n2 where b: "scrapeCitiesOf w cfg s cs S1 n1 = (d2, S2, n2)"
    by (cases "scrapeCitiesOf w cfg s cs S1 n1") auto
  have "ds = d1 @ d2 \<and> S' = S2" using Cons.prems a b by simp
  then show ?case
    using scrapeDoctorsBySpecialtyAndCity_fresh [OF a] Cons.IH [OF b] freshUrls_append by blast
qed

lemma scrapeSpecialties_fresh:
  "scrapeSpecialties w cfg ss S n = (ds, S', n') \<Longrightarrow> freshUrls S ds S'"
proof (induction ss arbitrary: S n ds S' n')
  case Nil
  then show ?case by (simp add: freshUrls_Nil)
next
  case (Cons s ss)
  obtain d1 S1 n1 where a: "scrapeCitiesOf w cfg s (cities_specialty cfg) S n = (d1, S1, n1)"
    by (cases "scrapeCitiesOf w cfg s (cities_specialty cfg) S n") auto
  obtain d2 S2 n2 where b: "scrapeSpecialties w cfg ss S1 n1 = (d2, S2, n2)"
    by (cases "scrapeSpecialties w cfg ss S1 n1") auto
  have "ds = d1 @ d2 \<and> S' = S2" using Cons.prems a b by simp
  then show ?case
    using scrapeCitiesOf_fresh [OF a] Cons.IH [OF b] freshUrls_append by blast
qed

lemma distinct_count: "distinct (map f xs) \<Longrightarrow> length (filter (\<lambda>x. f x = u) xs) \<le> 1"
  by (induction xs) (auto simp: filter_empty_conv image_iff)

text \<open>
  C2. In a run of either crawl that returns its doctors, started with any set of scraped
  URLs, the profile URLs of the returned records are pairwise distinct and none was in
  the set at the start; so at most one returned record has any given URL.
\<close>

theorem accepted_urls_distinct:
  "(fst (scrapeDoctors_city w cfg S n) = Inr ds \<longrightarrow>
      distinct (map profileUrl ds) \<and> set (map profileUrl ds) \<inter> S = {} \<and>
      length (filter (\<lambda>d. profileUrl d = u) ds) \<le> 1) \<and>
   (fst (scrapeDoctors_specialty w' cfg' S n) = Inr ds' \<longrightarrow>
      distinct (map profileUrl ds') \<and> set (map profileUrl ds') \<inter> S = {} \<and>
      length (filter (\<lambda>d. profileUrl d = u) ds') \<le> 1)"
proof -
  have a: "distinct (map profileUrl ds) \<and> set (map profileUrl ds) \<inter> S = {} \<and>
      length (filter (\<lambda>d. profileUrl d = u) ds) \<le> 1"
    if h: "fst (scrapeDoctors_city w cfg S n) = Inr ds"
  proof -
    obtain all S' n' where r: "scrapeCities w cfg (cities cfg) S n = (all, S', n')"
      by (cases "scrapeCities w cfg (cities cfg) S n") auto
    then have "ds = all" using h by (auto simp: scrapeDoctors_city_def split: if_splits)
    then have "freshUrls S ds S'" using scrapeCities_fresh [OF r] by simp
    then show ?thesis using distinct_count [of profileUrl ds u] by (simp add: freshUrls_def)
  qed
  have b: "distinct (map profileUrl ds') \<and> set (map profileUrl ds') \<inter> S = {} \<and>
      length (filter (\<lambda>d. profileUrl d = u) ds') \<le> 1"
    if h: "fst (scrapeDoctors_specialty w' cfg' S n) = Inr ds'"
  proof -
    obtain all S' n' where r: "scrapeSpecialties w' cfg' (specialties cfg') S n = (all, S', n')"
      by (cases "scrapeSpecialties w' cfg' (specialties cfg') S n") auto
    then have "ds' = all" using h by (auto simp: scrapeDoctors_specialty_def split: if_splits)
    then have "freshUrls S ds' S'" using scrapeSpecialties_fresh [OF r] by simp
    then show ?thesis using distinct_count [of profileUrl ds' u] by (simp add: freshUrls_def)
  qed
  show ?thesis using a b by blast
qed


subsection \<open>The example run\<close>

lemma isValidDoctor_city_name:
  "fullName d = fullName e \<Longrightarrow> isValidDoctor_city d = isValidDoctor_city e"
  by (simp add: isValidDoctor_city_def)

lemma juan_profile:
  "scrapeDoctorProfile exampleWorld exampleConfig n juanResult =
     (Some (juanRecord n), snd (profileRecord exampleWorld exampleConfig (n + 1) juanResult barePage))"
proof -
  have "profilePage exampleWorld n (result_doctorUrl juanResult) = Inr barePage"
    by (simp add: exampleWorld_def juanResult_def)
  then show ?thesis
    unfolding scrapeDoctorProfile_def juanRecord_def by (simp add: split_def Let_def)
qed

lemma ana_profile:
  "scrapeDoctorProfile exampleWorld exampleConfig n anaResult = (None, n + 1)"
proof -
  have "profilePage exampleWorld n (result_doctorUrl anaResult) = Inl (HttpError 500)"
    by (simp add: exampleWorld_def anaResult_def js_def)
  then show ?thesis
    unfolding scrapeDoctorProfile_def by simp
qed

lemma juan_name: "fullName (juanRecord n) = js ''Juan Perez''"
  by (simp add: juanRecord_def profileRecord_def Let_def split_def juanResult_def stripTitle_def
      asciiLower_def js_def trim_def isSpace_def)

lemma juan_url: "profileUrl (juanRecord n) = js ''/juan-perez''"
  by (simp add: juanRecord_def profileRecord_url juanResult_def)

lemma juan_valid: "isValidDoctor_city (juanRecord n)"
proof -
  have "isValidDoctor_city (testDoctor (js ''Juan Perez'') [])"
    by (simp add: isValidDoctor_city_def testDoctor_def js_def toLowerCase_def lowerUnit_def
        blacklist_def toUpperCase_def upperUnits_def trim_def isSpace_def splitOn_def)
  moreover have "fullName (juanRecord n) = fullName (testDoctor (js ''Juan Perez'') [])"
    by (simp add: juan_name testDoctor_def)
  ultimately show ?thesis using isValidDoctor_city_name by blast
qed

lemma example_pages:
  "collectPages exampleWorld c [1 ..< Suc maxPages] n = ([juanResult, juanResult, anaResult], n + 3)"
proof -
  have "[1 ..< Suc maxPages] = [1, 2, 3]" by (simp add: maxPages_def upt_rec)
  then show ?thesis by (simp add: exampleWorld_def juanResult_def)
qed

lemma example_city:
  "fst (scrapeDoctorsByCity exampleWorld exampleConfig c {} n) = [juanRecord (n + 3)]"
proof -
  have u: "result_doctorUrl juanResult = js ''/juan-perez''" "result_doctorUrl anaResult = js ''/ana-ruiz''"
    by (simp_all add: juanResult_def anaResult_def)
  have ne: "js ''/ana-ruiz'' \<noteq> js ''/juan-perez''" by (simp add: js_def)
  have cap: "\<And>k. k \<le> 3 \<Longrightarrow> \<not> capReached (maxDoctorsPerCity exampleConfig) k"
    by (simp add: capReached_def exampleConfig_def)
  show ?thesis
    unfolding scrapeDoctorsByCity_def example_pages
    by (simp add: cap u ne juan_profile ana_profile juan_valid split_def)
qed


lemma example_run:
  "fst (scrapeCities exampleWorld exampleConfig (cities exampleConfig) {} 0) = [juanRecord 3]"
proof -
  have "fst (scrapeDoctorsByCity exampleWorld exampleConfig (trim (js ''Lima'')) {} 0) = [juanRecord (0 + 3)]"
    by (rule example_city)
  moreover have "cities exampleConfig = [js ''Lima'']" by (simp add: exampleConfig_def)
  ultimately show ?thesis by (simp add: split_def)
qed

lemma example_run_specialty:
  "fst (scrapeSpecialties exampleWorld_specialty exampleConfig_specialty
          (specialties exampleConfig_specialty) {} 0) = [perezCard]"
proof -
  have v: "isValidDoctor_specialty perezCard"
    by (simp add: isValidDoctor_specialty_def perezCard_def testDoctor_def js_def toLowerCase_def
        lowerUnit_def clinicKeywords_def toUpperCase_def upperUnits_def)
  have c: "belowCap (maxDoctorsPerSpecialty exampleConfig_specialty) 0"
      "belowCap (maxDoctorsPerSpecialty exampleConfig_specialty) (Suc 0)"
    by (simp_all add: belowCap_def exampleConfig_specialty_def)
  have p: "parseStandardCards exampleConfig_specialty [Some perezCard, Some perezCard] 0 {}
             = ([perezCard], {profileUrl perezCard})"
    by (simp add: v c)
  have l: "scrapeDoctorsBySpecialtyAndCity exampleWorld_specialty exampleConfig_specialty s c {} 0
             = ([perezCard], {profileUrl perezCard}, 1)" for s c
    by (simp add: scrapeDoctorsBySpecialtyAndCity_def exampleWorld_specialty_def v c)
  have sp: "specialties exampleConfig_specialty = [js ''cardiologia'']"
      "cities_specialty exampleConfig_specialty = [js ''Lima'']"
    by (simp_all add: exampleConfig_specialty_def)
  show ?thesis
    by (simp add: sp l split_def)
qed

text \<open>
  The example runs, in which a doctor is listed twice with one URL, return the doctor
  once.
\<close>

theorem accepted_urls_distinct_witness:
  "fst (scrapeDoctors_city exampleWorld exampleConfig {} 0) = Inr [juanRecord 3] \<and>
   fst (scrapeDoctors_specialty exampleWorld_specialty exampleConfig_specialty {} 0)
     = Inr [perezCard] \<and>
   distinct (map profileUrl [juanRecord 3]) \<and>
   length (filter (\<lambda>d. profileUrl d = js ''/juan-perez'') [juanRecord 3]) \<le> 1 \<and>
   distinct (map profileUrl [perezCard])"
proof -
  have a: "fst (scrapeDoctors_city exampleWorld exampleConfig {} 0) = Inr [juanRecord 3]"
    using example_run by (simp add: scrapeDoctors_city_def split_def Let_def)
  have b: "fst (scrapeDoctors_specialty exampleWorld_specialty exampleConfig_specialty {} 0)
     = Inr [perezCard]"
    using example_run_specialty by (simp add: scrapeDoctors_specialty_def split_def Let_def)
  show ?thesis
    using accepted_urls_distinct [of exampleWorld exampleConfig "{}" 0 "[juanRecord 3]"
        "js ''/juan-perez''" exampleWorld_specialty exampleConfig_specialty "[perezCard]"] a b
    by simp
qed

section \<open>The fatal outcome\<close>

text \<open>
  C3. \<open>scrapeDoctors\<close>, of either crawl, throws exactly when the loops below it have
  found no doctor, and otherwise returns the doctors found. The loops themselves cannot
  fail: a search page that fails is skipped, a profile page that fails gives \<open>null\<close>, a
  listing page that fails (other than with 404, which sends the crawl to the home page)
  and a home page that fails give no doctors.
\<close>

theorem scrapeDoctors_throws_iff_empty:
  "(isl (fst (scrapeDoctors_city w cfg S n))
      \<longleftrightarrow> fst (scrapeCities w cfg (cities cfg) S n) = []) \<and>
   (fst (scrapeCities w cfg (cities cfg) S n) \<noteq> [] \<longrightarrow>
      fst (scrapeDoctors_city w cfg S n) = Inr (fst (scrapeCities w cfg (cities cfg) S n))) \<and>
   (isl (fst (scrapeDoctors_specialty w' cfg' S n))
      \<longleftrightarrow> fst (scrapeSpecialties w' cfg' (specialties cfg') S n) = []) \<and>
   (fst (scrapeSpecialties w' cfg' (specialties cfg') S n) \<noteq> [] \<longrightarrow>
      fst (scrapeDoctors_specialty w' cfg' S n)
        = Inr (fst (scrapeSpecialties w' cfg' (specialties cfg') S n))) \<and>
   (searchPage w n c page = Inl e \<longrightarrow>
      collectPages w c (page # pages) n = collectPages w c pages (n + 1)) \<and>
   (profilePage w n (result_doctorUrl result) = Inl e \<longrightarrow>
      scrapeDoctorProfile w cfg n result = (None, n + 1)) \<and>
   (listingPage w' n s c = Inl e \<and> e \<noteq> HttpError 404 \<longrightarrow>
      scrapeDoctorsBySpecialtyAndCity w' cfg' s c S n = ([], S, n + 1)) \<and>
   (homePage w' n = Inl e \<longrightarrow> scrapeDoctorsFromHomepage w' cfg' S n = ([], S, n + 1))"
  by (simp add: scrapeDoctors_city_def scrapeDoctors_specialty_def split_def Let_def
      scrapeDoctorProfile_def scrapeDoctorsBySpecialtyAndCity_def scrapeDoctorsFromHomepage_def)

lemma dead_run: "fst (scrapeCities deadWorld exampleConfig (cities exampleConfig) {} 0) = []"
proof -
  have "[1 ..< Suc maxPages] = [1, 2, 3]" by (simp add: maxPages_def upt_rec)
  then have "collectPages deadWorld c [1 ..< Suc maxPages] 0 = ([], 3)" for c
    by (simp add: deadWorld_def)
  moreover have "cities exampleConfig = [js ''Lima'']" by (simp add: exampleConfig_def)
  ultimately show ?thesis
    by (simp add: scrapeDoctorsByCity_def split_def)
qed

text \<open>
  In the example run the first search page and a profile page fail, and the doctor of
  the other profile is returned; where every search page fails, the run throws.
\<close>

theorem scrapeDoctors_throws_iff_empty_witness:
  "searchPage exampleWorld 0 (js ''Lima'') 1 = Inl (Error (js ''timeout'')) \<and>
   profilePage exampleWorld 0 (result_doctorUrl anaResult) = Inl (HttpError 500) \<and>
   fst (scrapeDoctors_city exampleWorld exampleConfig {} 0) = Inr [juanRecord 3] \<and>
   fst (scrapeDoctors_city deadWorld exampleConfig {} 0) = Inl (Error (js ''No doctors found'')) \<and>
   fst (scrapeDoctors_specialty exampleWorld_specialty exampleConfig_specialty {} 0)
     = Inr [perezCard]"
proof -
  have p: "searchPage exampleWorld 0 (js ''Lima'') 1 = Inl (Error (js ''timeout''))"
    by (simp add: exampleWorld_def)
  have q: "profilePage exampleWorld 0 (result_doctorUrl anaResult) = Inl (HttpError 500)"
    by (simp add: exampleWorld_def anaResult_def js_def)
  have d: "fst (scrapeDoctors_city deadWorld exampleConfig {} 0) = Inl (Error (js ''No doctors found''))"
    using dead_run by (simp add: scrapeDoctors_city_def split_def Let_def)
  show ?thesis
    using scrapeDoctors_throws_iff_empty [of exampleWorld exampleConfig "{}" 0
        exampleWorld_specialty exampleConfig_specialty]
      example_run example_run_specialty p q d
    by simp
qed

section \<open>The address fallback\<close>

lemma extractAddress_bare: "extractAddress barePage = None"
  by (simp add: extractAddress_def barePage_def)

text \<open>
  C6. \<open>extractAddress\<close> gives a string or \<open>null\<close> for every parsed page; and when it
  gives \<open>null\<close> for a profile page that has arrived, \<open>scrapeDoctorProfile\<close> returns a
  record whose address is \<open>Consultorio en\<close> followed by the city of the listing.
\<close>

theorem extractAddress_fallback:
  "(extractAddress doc = None \<or> (\<exists>a. extractAddress doc = Some a)) \<and>
   (profilePage w n (result_doctorUrl result) = Inr doc \<and> extractAddress doc = None \<longrightarrow>
      (\<exists>d n'. scrapeDoctorProfile w cfg n result = (Some d, n') \<and>
         address d = js ''Consultorio en '' @ result_city result))"
proof -
  have "address (fst (profileRecord w cfg n1 result doc)) = js ''Consultorio en '' @ result_city result"
    if "extractAddress doc = None" for n1
    using that by (simp add: profileRecord_def Let_def split_def)
  then show ?thesis
    by (auto simp: scrapeDoctorProfile_def Let_def split_def)
qed

text \<open>The bare profile page of the example run.\<close>

theorem extractAddress_fallback_witness:
  "profilePage exampleWorld 3 (result_doctorUrl juanResult) = Inr barePage \<and>
   extractAddress barePage = None \<and>
   fst (scrapeDoctorProfile exampleWorld exampleConfig 3 juanResult) = Some (juanRecord 3) \<and>
   address (juanRecord 3) = js ''Consultorio en Lima''"
proof -
  have p: "profilePage exampleWorld 3 (result_doctorUrl juanResult) = Inr barePage"
    by (simp add: exampleWorld_def juanResult_def)
  have c: "result_city juanResult = js ''Lima''" by (simp add: juanResult_def)
  have j: "js ''Consultorio en '' @ js ''Lima'' = js ''Consultorio en Lima''" by (simp add: js_def)
  show ?thesis
    using extractAddress_fallback [of barePage exampleWorld 3 juanResult exampleConfig]
      p extractAddress_bare juan_profile [of 3]
    by (auto simp: c j)
qed

end
